theory Spec2Isabelle
  imports Complex_Main "HOL-Library.Word"
begin

section \<open>Python values seen by the handlers of \<^verbatim>\<open>app.py\<close>\<close>

text \<open>
  A \<^verbatim>\<open>bytes\<close> object is a list of 8-bit words; a \<^verbatim>\<open>str\<close> is a list of code points
  (each below \<open>0x110000\<close> in Python). The payload \<^verbatim>\<open>data\<close> of a socket.io event is
  taken to be a dict decoded from JSON, as the page's client sends it: keys are strings,
  values are JSON values. A payload that is no dict is outside the model.
\<close>

type_synonym byte = "8 word"
type_synonym pystr = "nat list"

datatype py_error =
    OSError | TypeError | KeyError | AttributeError | StructError
  | UnicodeEncodeError | UnicodeDecodeError

datatype jval =
    JNull | JBool bool | JInt int | JFloat rat | JStr pystr
  | JArray "jval list" | JObject "(string \<times> jval) list"

type_synonym pydict = "string \<rightharpoonup> jval"

type_synonym 'a res = "py_error + 'a"

text \<open>Truthiness of \<^verbatim>\<open>app.config["fd"]\<close> and \<^verbatim>\<open>app.config["child_pid"]\<close>: the value is
  \<^verbatim>\<open>None\<close> or an int, and both \<^verbatim>\<open>None\<close> and \<^verbatim>\<open>0\<close> are falsy.\<close>

fun truthy :: "int option \<Rightarrow> bool" where
  "truthy None = False"
| "truthy (Some i) = (i \<noteq> 0)"

text \<open>Truthiness of \<^verbatim>\<open>app.config["useTmp"]\<close>, a \<^verbatim>\<open>str\<close> or \<^verbatim>\<open>None\<close>.\<close>

fun truthy_str :: "string option \<Rightarrow> bool" where
  "truthy_str None = False"
| "truthy_str (Some s) = (s \<noteq> [])"

subsection \<open>UTF-8: \<^verbatim>\<open>str.encode()\<close> and \<^verbatim>\<open>bytes.decode(errors=...)\<close>\<close>

text \<open>\<^verbatim>\<open>str.encode()\<close> is strict UTF-8: a surrogate code point raises
  \<^verbatim>\<open>UnicodeEncodeError\<close>. No Python \<^verbatim>\<open>str\<close> holds a code point from \<open>0x110000\<close> on; the
  model rejects such a list with the same error.\<close>

definition utf8_encode_cp :: "nat \<Rightarrow> nat list res" where
  "utf8_encode_cp c =
     (if c < 0x80 then Inr [c]
      else if c < 0x800 then Inr [0xC0 + c div 64, 0x80 + c mod 64]
      else if c < 0x10000 then
        (if 0xD800 \<le> c \<and> c \<le> 0xDFFF then Inl UnicodeEncodeError
         else Inr [0xE0 + c div 4096, 0x80 + c div 64 mod 64, 0x80 + c mod 64])
      else if c < 0x110000 then
        Inr [0xF0 + c div 262144, 0x80 + c div 4096 mod 64, 0x80 + c div 64 mod 64,
             0x80 + c mod 64]
      else Inl UnicodeEncodeError)"

fun utf8_encode :: "pystr \<Rightarrow> nat list res" where
  "utf8_encode [] = Inr []"
| "utf8_encode (c # cs) =
     (case utf8_encode_cp c of
        Inl e \<Rightarrow> Inl e
      | Inr bs \<Rightarrow> (case utf8_encode cs of Inl e \<Rightarrow> Inl e | Inr rest \<Rightarrow> Inr (bs @ rest)))"

definition str_encode :: "pystr \<Rightarrow> byte list res" where
  "str_encode s = (case utf8_encode s of Inl e \<Rightarrow> Inl e | Inr ns \<Rightarrow> Inr (map of_nat ns))"

text \<open>One step of CPython's UTF-8 decoder on the start byte \<open>ch\<close> and the bytes after it.
  The result is the decoded code point, or \<open>None\<close> for an invalid sequence, and the input
  left after the bytes the step covers: a valid sequence, or the error range the decoder
  reports (the start byte alone for an invalid start byte, the start byte and the valid
  continuation bytes before a bad one, everything up to the end for a truncated sequence).\<close>

definition is_cont :: "nat \<Rightarrow> bool" where
  "is_cont b = (0x80 \<le> b \<and> b < 0xC0)"

definition utf8_step :: "nat \<Rightarrow> nat list \<Rightarrow> nat option \<times> nat list" where
  "utf8_step ch bs =
     (if ch < 0x80 then (Some ch, bs)
      else if ch < 0xE0 then
        (if ch < 0xC2 then (None, bs)
         else case bs of
           [] \<Rightarrow> (None, [])
         | ch2 # r2 \<Rightarrow>
             if \<not> is_cont ch2 then (None, bs)
             else (Some ((ch - 0xC0) * 64 + (ch2 - 0x80)), r2))
      else if ch < 0xF0 then
        (case bs of
           [] \<Rightarrow> (None, [])
         | ch2 # r2 \<Rightarrow>
             if \<not> is_cont ch2 \<or> (if ch2 < 0xA0 then ch = 0xE0 else ch = 0xED) then (None, bs)
             else (case r2 of
                [] \<Rightarrow> (None, [])
              | ch3 # r3 \<Rightarrow>
                  if \<not> is_cont ch3 then (None, r2)
                  else (Some ((ch - 0xE0) * 4096 + (ch2 - 0x80) * 64 + (ch3 - 0x80)), r3)))
      else if ch < 0xF5 then
        (case bs of
           [] \<Rightarrow> (None, [])
         | ch2 # r2 \<Rightarrow>
             if \<not> is_cont ch2 \<or> (if ch2 < 0x90 then ch = 0xF0 else ch = 0xF4) then (None, bs)
             else (case r2 of
                [] \<Rightarrow> (None, [])
              | ch3 # r3 \<Rightarrow>
                  if \<not> is_cont ch3 then (None, r2)
                  else (case r3 of
                     [] \<Rightarrow> (None, [])
                   | ch4 # r4 \<Rightarrow>
                       if \<not> is_cont ch4 then (None, r3)
                       else (Some ((ch - 0xF0) * 262144 + (ch2 - 0x80) * 4096
                                     + (ch3 - 0x80) * 64 + (ch4 - 0x80)), r4))))
      else (None, bs))"

lemma utf8_step_length: "length (snd (utf8_step ch bs)) \<le> length bs"
  by (simp add: utf8_step_def split: list.split)

lemma utf8_step_rest: "utf8_step ch bs = (r, rest) \<Longrightarrow> length rest < Suc (length bs)"
  using utf8_step_length [of ch bs] by simp

text \<open>The error handler of \<^verbatim>\<open>bytes.decode\<close>: \<^verbatim>\<open>'strict'\<close> (the default) raises
  \<^verbatim>\<open>UnicodeDecodeError\<close> at the first invalid sequence, \<^verbatim>\<open>'ignore'\<close> skips it and
  goes on after it.\<close>

datatype errors_mode = Strict | Ignore

function utf8_decode :: "errors_mode \<Rightarrow> nat list \<Rightarrow> pystr res" where
  "utf8_decode m [] = Inr []"
| "utf8_decode m (ch # bs) =
     (case utf8_step ch bs of
        (Some c, rest) \<Rightarrow>
          (case utf8_decode m rest of Inl e \<Rightarrow> Inl e | Inr s \<Rightarrow> Inr (c # s))
      | (None, rest) \<Rightarrow>
          (case m of Strict \<Rightarrow> Inl UnicodeDecodeError | Ignore \<Rightarrow> utf8_decode m rest))"
  by pat_completeness auto
termination
  by (relation "measure (\<lambda>(m, bs). length bs)") (auto dest: utf8_step_rest [OF sym])

definition bytes_decode :: "errors_mode \<Rightarrow> byte list \<Rightarrow> pystr res" where
  "bytes_decode m bs = utf8_decode m (map unat bs)"

subsection \<open>\<^verbatim>\<open>struct.pack("HHHH", row, col, xpix, ypix)\<close>\<close>

text \<open>Format \<^verbatim>\<open>H\<close> is an unsigned 16-bit integer. \<^verbatim>\<open>struct.pack\<close> takes an int
  (a \<^verbatim>\<open>bool\<close> is one) from \<open>0\<close> to \<open>65535\<close> and raises \<^verbatim>\<open>struct.error\<close> on any other
  value.\<close>

definition pack_H :: "jval \<Rightarrow> 16 word res" where
  "pack_H v =
     (case v of
        JInt i \<Rightarrow> if 0 \<le> i \<and> i \<le> 65535 then Inr (word_of_int i) else Inl StructError
      | JBool b \<Rightarrow> Inr (if b then 1 else 0)
      | _ \<Rightarrow> Inl StructError)"

type_synonym winsize = "16 word \<times> 16 word \<times> 16 word \<times> 16 word"

definition pack_HHHH :: "jval \<Rightarrow> jval \<Rightarrow> jval \<Rightarrow> jval \<Rightarrow> winsize res" where
  "pack_HHHH row col xpix ypix =
     (case pack_H row of Inl e \<Rightarrow> Inl e | Inr r \<Rightarrow>
      case pack_H col of Inl e \<Rightarrow> Inl e | Inr c \<Rightarrow>
      case pack_H xpix of Inl e \<Rightarrow> Inl e | Inr x \<Rightarrow>
      case pack_H ypix of Inl e \<Rightarrow> Inl e | Inr y \<Rightarrow> Inr (r, c, x, y))"

section \<open>The process state and the calls the program makes\<close>

text \<open>
  The program keeps its session in the process-wide \<^verbatim>\<open>app.config\<close>; everything else it does
  is a call to the operating system or to the socket.io server. The model is a record of the
  \<^verbatim>\<open>app.config\<close> entries the session code reads and writes, the number of live pump tasks,
  and the trace of the calls made so far, in order. A call whose result the program uses
  (\<^verbatim>\<open>pty.fork\<close>, \<^verbatim>\<open>select.select\<close>, \<^verbatim>\<open>os.read\<close>, \<^verbatim>\<open>tempfile.mkdtemp\<close>,
  \<^verbatim>\<open>subprocess.run\<close>) takes that result from the environment, as an argument of the
  handler. \<^verbatim>\<open>os.write\<close>, \<^verbatim>\<open>fcntl.ioctl\<close>, \<^verbatim>\<open>socketio.emit\<close>, \<^verbatim>\<open>socketio.sleep\<close> and
  \<^verbatim>\<open>socketio.start_background_task\<close> are recorded with their arguments and taken to
  return. The \<^verbatim>\<open>logging\<close> calls are left out, but for the exception that evaluating the
  argument of one of them raises.
\<close>

datatype action =
    is_Fork: Fork int int
  | is_Ioctl: Ioctl int winsize
  | is_StartTask: StartTask
  | is_Write: Write int "byte list"
  | is_Sleep: Sleep rat
  | is_Select: Select int rat bool
  | is_Read: Read int nat "byte list res"
  | is_Emit: Emit pystr
  | is_Mkdtemp: Mkdtemp string
  | is_Run: Run "string list" "string option"

record world =
  cfg_fd :: "int option"
  cfg_child_pid :: "int option"
  cfg_cmd :: "string list"
  cfg_useTmp :: "string option"
  cfg_tmp :: "string option"
  pumps :: nat
  trace :: "action list"

definition log :: "action \<Rightarrow> world \<Rightarrow> world" where
  "log a w = w\<lparr>trace := trace w @ [a]\<rparr>"

text \<open>The module's top level sets \<^verbatim>\<open>fd\<close> and \<^verbatim>\<open>child_pid\<close> to \<^verbatim>\<open>None\<close>; \<^verbatim>\<open>main\<close> sets
  \<^verbatim>\<open>cmd\<close> and \<^verbatim>\<open>useTmp\<close> from the command line before the server runs.\<close>

definition init :: "string list \<Rightarrow> string option \<Rightarrow> world" where
  "init c u = \<lparr>cfg_fd = None, cfg_child_pid = None, cfg_cmd = c, cfg_useTmp = u,
                cfg_tmp = None, pumps = 0, trace = []\<rparr>"

subsection \<open>\<^verbatim>\<open>set_winsize\<close>\<close>

definition set_winsize :: "int \<Rightarrow> jval \<Rightarrow> jval \<Rightarrow> jval \<Rightarrow> jval \<Rightarrow> world \<Rightarrow> unit res \<times> world" where
  "set_winsize f row col xpix ypix w =
     (case pack_HHHH row col xpix ypix of
        Inl e \<Rightarrow> (Inl e, w)
      | Inr ws \<Rightarrow> (Inr (), log (Ioctl f ws) w))"

subsection \<open>\<^verbatim>\<open>read_and_forward_pty_output\<close>\<close>

text \<open>What the environment answers in one iteration: \<^verbatim>\<open>select\<close> reports the descriptor
  not ready, or ready, and then \<^verbatim>\<open>os.read\<close> raises \<^verbatim>\<open>OSError\<close> or finds the given bytes
  pending (none at end of file) and returns at most \<^verbatim>\<open>max_read_bytes\<close> of them.\<close>

datatype read_outcome = ReadRaises | Pending "byte list"

datatype poll = NotReady | Ready read_outcome

definition max_read_bytes :: nat where
  "max_read_bytes = 1024 * 20"

definition os_read :: "nat \<Rightarrow> read_outcome \<Rightarrow> byte list res" where
  "os_read n ro = (case ro of ReadRaises \<Rightarrow> Inl OSError | Pending bs \<Rightarrow> Inr (take n bs))"

text \<open>The body of the \<^verbatim>\<open>while True\<close> loop.\<close>

definition pump_iter :: "poll \<Rightarrow> world \<Rightarrow> unit res \<times> world" where
  "pump_iter p w =
     (let w1 = log (Sleep (1 / 100)) w in
      case cfg_fd w1 of
        None \<Rightarrow> (Inr (), w1)
      | Some f \<Rightarrow>
          if f = 0 then (Inr (), w1)
          else (case p of
             NotReady \<Rightarrow> (Inr (), log (Select f 0 False) w1)
           | Ready ro \<Rightarrow>
               (let w2 = log (Select f 0 True) w1;
                    r = os_read max_read_bytes ro;
                    w3 = log (Read f max_read_bytes r) w2
                in case r of
                  Inl e \<Rightarrow> (Inl e, w3)
                | Inr bs \<Rightarrow>
                    (case bytes_decode Ignore bs of
                       Inl e \<Rightarrow> (Inl e, w3)
                     | Inr output \<Rightarrow> (Inr (), log (Emit output) w3)))))"

text \<open>The loop has no exit: it is left only by an exception. The environment is the
  sequence of its answers, one per iteration.\<close>

partial_function (option) read_and_forward_pty_output ::
    "(nat \<Rightarrow> poll) \<Rightarrow> nat \<Rightarrow> world \<Rightarrow> (py_error \<times> world) option" where
  "read_and_forward_pty_output env i w =
     (case pump_iter (env i) w of
        (Inl e, w') \<Rightarrow> Some (e, w')
      | (Inr u, w') \<Rightarrow> read_and_forward_pty_output env (Suc i) w')"

text \<open>The first iterations of the loop, one per answer of the list, up to the first
  exception. (Lemma \<open>loop_unroll\<close> below: the loop is these iterations, and then the loop
  again from the state they end in.)\<close>

fun pump_run :: "poll list \<Rightarrow> world \<Rightarrow> unit res \<times> world" where
  "pump_run [] w = (Inr (), w)"
| "pump_run (p # ps) w =
     (case pump_iter p w of
        (Inl e, w') \<Rightarrow> (Inl e, w')
      | (Inr u, w') \<Rightarrow> pump_run ps w')"

subsection \<open>\<^verbatim>\<open>pty_input\<close>\<close>

definition pty_input :: "pydict \<Rightarrow> world \<Rightarrow> unit res \<times> world" where
  "pty_input data w =
     (case cfg_fd w of
        None \<Rightarrow> (Inr (), w)
      | Some f \<Rightarrow>
          if f = 0 then (Inr (), w)
          else (case data ''input'' of
             None \<Rightarrow> (Inl KeyError, w)
           | Some (JStr s) \<Rightarrow>
               (case str_encode s of
                  Inl e \<Rightarrow> (Inl e, w)
                | Inr bs \<Rightarrow> (Inr (), log (Write f bs) w))
           | Some _ \<Rightarrow> (Inl AttributeError, w)))"

subsection \<open>\<^verbatim>\<open>resize\<close>\<close>

definition resize :: "pydict \<Rightarrow> world \<Rightarrow> unit res \<times> world" where
  "resize data w =
     (case cfg_fd w of
        None \<Rightarrow> (Inr (), w)
      | Some f \<Rightarrow>
          if f = 0 then (Inr (), w)
          else (case data ''rows'' of
             None \<Rightarrow> (Inr (), w)
           | Some rows \<Rightarrow>
               (case data ''cols'' of
                  None \<Rightarrow> (Inr (), w)
                | Some cols \<Rightarrow> set_winsize f rows cols (JInt 0) (JInt 0) w)))"

subsection \<open>\<^verbatim>\<open>connect\<close>\<close>

text \<open>\<^verbatim>\<open>pty.fork()\<close> raises \<^verbatim>\<open>OSError\<close>, or returns \<^verbatim>\<open>(child_pid, fd)\<close>: in the parent the
  pid of the child and the master end of the pty, in the child \<^verbatim>\<open>child_pid == 0\<close>.\<close>

datatype fork_outcome = ForkRaises | Forked int int

text \<open>In the child, what one round of the loop meets: \<^verbatim>\<open>tempfile.mkdtemp()\<close> returns a
  fresh directory or raises, \<^verbatim>\<open>subprocess.run\<close> returns when the command has ended
  (the return code is not looked at) or raises when it cannot be started.\<close>

datatype mkdtemp_outcome = TmpDir string | MkdtempRaises

datatype run_outcome = Completed int | RunRaises py_error

type_synonym child_env = "nat \<Rightarrow> mkdtemp_outcome \<times> run_outcome"

definition subprocess_run :: "string option \<Rightarrow> run_outcome \<Rightarrow> world \<Rightarrow> unit res \<times> world" where
  "subprocess_run cwd ro w =
     (let w1 = log (Run (cfg_cmd w) cwd) w in
      case ro of Completed rc \<Rightarrow> (Inr (), w1) | RunRaises e \<Rightarrow> (Inl e, w1))"

definition child_iter :: "mkdtemp_outcome \<times> run_outcome \<Rightarrow> world \<Rightarrow> unit res \<times> world" where
  "child_iter oc w =
     (if truthy_str (cfg_useTmp w) then
        (case fst oc of
           MkdtempRaises \<Rightarrow> (Inl OSError, w)
         | TmpDir d \<Rightarrow>
             (let w1 = (log (Mkdtemp d) w)\<lparr>cfg_tmp := Some d\<rparr>
              in subprocess_run (cfg_tmp w1) (snd oc) w1))
      else subprocess_run None (snd oc) w)"

partial_function (option) child_loop ::
    "child_env \<Rightarrow> nat \<Rightarrow> world \<Rightarrow> (py_error \<times> world) option" where
  "child_loop env i w =
     (case child_iter (env i) w of
        (Inl e, w') \<Rightarrow> Some (e, w')
      | (Inr u, w') \<Rightarrow> child_loop env (Suc i) w')"

text \<open>The first rounds of the child's loop, one per outcome of the list, up to the first
  exception.\<close>

fun child_run :: "(mkdtemp_outcome \<times> run_outcome) list \<Rightarrow> world \<Rightarrow> unit res \<times> world" where
  "child_run [] w = (Inr (), w)"
| "child_run (oc # ocs) w =
     (case child_iter oc w of
        (Inl e, w') \<Rightarrow> (Inl e, w')
      | (Inr u, w') \<Rightarrow> child_run ocs w')"

text \<open>The handler. \<open>None\<close> is the handler that never returns. In the parent the last
  statement reached is \<^verbatim>\<open>logging.info("child pid is " + child_pid)\<close>, which adds an int to
  a \<^verbatim>\<open>str\<close> and raises \<^verbatim>\<open>TypeError\<close>, after the session has been stored and the pump
  started. (The string joined from \<^verbatim>\<open>cmd\<close> before the pump is started is for a log line
  that is never reached; joining it raises nothing.)\<close>

definition connect :: "child_env \<Rightarrow> fork_outcome \<Rightarrow> world \<Rightarrow> (unit res \<times> world) option" where
  "connect env fo w =
     (if truthy (cfg_child_pid w) then Some (Inr (), w)
      else (case fo of
         ForkRaises \<Rightarrow> Some (Inl OSError, w)
       | Forked child_pid f \<Rightarrow>
           if child_pid = 0 then
             (case child_loop env 0 w of None \<Rightarrow> None | Some (e, w') \<Rightarrow> Some (Inl e, w'))
           else
             (let w1 = log (Fork child_pid f) w;
                  w2 = w1\<lparr>cfg_fd := Some f, cfg_child_pid := Some child_pid\<rparr>
              in case set_winsize f (JInt 50) (JInt 50) (JInt 0) (JInt 0) w2 of
                (Inl e, w3) \<Rightarrow> Some (Inl e, w3)
              | (Inr u, w3) \<Rightarrow>
                  (let w4 = (log StartTask w3)\<lparr>pumps := Suc (pumps w3)\<rparr>
                   in Some (Inl TypeError, w4)))))"

section \<open>The server: events in the order they are handled\<close>

text \<open>
  The socket.io server calls one handler per incoming event; a live pump task runs one
  iteration of its loop between two of them (a handler that runs while the pump sleeps
  comes before that iteration). An exception that leaves a handler is caught by the server
  and what the handler did before it stands; an exception that leaves the pump's loop ends
  that task. With no live pump task a pump iteration does nothing.
\<close>

datatype event = Connect fork_outcome | PtyInput pydict | Resize pydict | PumpIter poll

definition handle :: "child_env \<Rightarrow> event \<Rightarrow> world \<Rightarrow> (unit res \<times> world) option" where
  "handle env ev w =
     (case ev of
        Connect fo \<Rightarrow> connect env fo w
      | PtyInput data \<Rightarrow> Some (pty_input data w)
      | Resize data \<Rightarrow> Some (resize data w)
      | PumpIter p \<Rightarrow>
          if pumps w = 0 then Some (Inr (), w)
          else (case pump_iter p w of
             (Inl e, w') \<Rightarrow> Some (Inl e, w'\<lparr>pumps := pumps w' - 1\<rparr>)
           | (Inr u, w') \<Rightarrow> Some (Inr u, w')))"

fun run :: "child_env \<Rightarrow> event list \<Rightarrow> world \<Rightarrow> world option" where
  "run env [] w = Some w"
| "run env (ev # evs) w =
     (case handle env ev w of None \<Rightarrow> None | Some (r, w') \<Rightarrow> run env evs w')"

section \<open>Observations on a run\<close>

text \<open>The bytes an input event hands to \<^verbatim>\<open>os.write\<close> when a session is attached: the
  UTF-8 encoding of \<^verbatim>\<open>data["input"]\<close>, when that is a \<^verbatim>\<open>str\<close> that encodes.\<close>

fun input_bytes :: "event \<Rightarrow> byte list option" where
  "input_bytes (PtyInput data) =
     (case data ''input'' of
        Some (JStr s) \<Rightarrow> (case str_encode s of Inl e \<Rightarrow> None | Inr bs \<Rightarrow> Some bs)
      | _ \<Rightarrow> None)"
| "input_bytes ev = None"

text \<open>The calls a step has added to the trace.\<close>

definition added :: "world \<Rightarrow> world \<Rightarrow> action list" where
  "added w w' = drop (length (trace w)) (trace w')"

text \<open>The values \<^verbatim>\<open>struct.pack\<close> takes for format \<^verbatim>\<open>H\<close>.\<close>

fun ushort :: "jval \<Rightarrow> bool" where
  "ushort (JInt i) = (0 \<le> i \<and> i \<le> 65535)"
| "ushort (JBool b) = True"
| "ushort v = False"

text \<open>The bytes a read returned, and the text of an output event.\<close>

fun read_bytes :: "action \<Rightarrow> byte list option" where
  "read_bytes (Read f n (Inr bs)) = Some bs"
| "read_bytes a = None"

fun emit_text :: "action \<Rightarrow> pystr option" where
  "emit_text (Emit s) = Some s"
| "emit_text a = None"

text \<open>The bytes the environment has pending at a poll that finds the descriptor ready.\<close>

fun pending :: "poll \<Rightarrow> byte list option" where
  "pending (Ready (Pending bs)) = Some bs"
| "pending p = None"

text \<open>A round of the child's loop raises when \<^verbatim>\<open>subprocess.run\<close> does, or, with
  \<^verbatim>\<open>useTmp\<close> set, when \<^verbatim>\<open>mkdtemp\<close> does.\<close>

definition round_raises :: "world \<Rightarrow> mkdtemp_outcome \<times> run_outcome \<Rightarrow> bool" where
  "round_raises w oc =
     (truthy_str (cfg_useTmp w) \<and> fst oc = MkdtempRaises
      \<or> (case snd oc of Completed rc \<Rightarrow> False | RunRaises e \<Rightarrow> True))"

section \<open>What a step leaves alone\<close>

lemma added_append [simp]: "added w (w\<lparr>trace := trace w @ new\<rparr>) = new"
  by (simp add: added_def)

lemma added_same [simp]: "added w w = []"
  by (simp add: added_def)

lemma set_winsize_frame:
  "set_winsize f r c x y w = (res, w') \<Longrightarrow>
     w' = w\<lparr>trace := trace w @ added w w'\<rparr> \<and> (\<forall>a\<in>set (added w w'). is_Ioctl a)"
  by (auto simp: set_winsize_def log_def split: sum.splits)

lemma pump_iter_frame:
  "pump_iter p w = (res, w') \<Longrightarrow>
     w' = w\<lparr>trace := trace w @ added w w'\<rparr>
       \<and> (\<forall>a\<in>set (added w w'). is_Sleep a \<or> is_Select a \<or> is_Read a \<or> is_Emit a)"
  by (auto simp: pump_iter_def log_def Let_def split: option.splits if_splits poll.splits sum.splits)

lemma handle_running:
  assumes "truthy (cfg_child_pid w)" and "cfg_fd w = Some f" and "f \<noteq> 0"
  shows "\<exists>res w'. handle env ev w = Some (res, w') \<and> cfg_fd w' = cfg_fd w
           \<and> cfg_child_pid w' = cfg_child_pid w
           \<and> filter is_Write (trace w') = filter is_Write (trace w) @ map (Write f) (case input_bytes ev of None \<Rightarrow> [] | Some bs \<Rightarrow> [bs])"
proof (cases ev)
  case (Connect fo)
  then show ?thesis using assms by (simp add: handle_def connect_def)
next
  case (PtyInput data)
  then show ?thesis using assms
    by (auto simp: handle_def pty_input_def log_def split: option.splits jval.splits sum.splits)
next
  case (Resize data)
  then show ?thesis using assms
    by (auto simp: handle_def resize_def set_winsize_def log_def split: option.splits sum.splits)
next
  case (PumpIter p)
  obtain res w' where pi: "pump_iter p w = (res, w')" by (cases "pump_iter p w")
  from pump_iter_frame [OF pi] obtain new where "w' = w\<lparr>trace := trace w @ new\<rparr>"
     "\<forall>a\<in>set new. is_Sleep a \<or> is_Select a \<or> is_Read a \<or> is_Emit a" by metis
  then have "cfg_fd w' = cfg_fd w" "cfg_child_pid w' = cfg_child_pid w" "filter is_Write (trace w') = filter is_Write (trace w)"
    by (auto simp: filter_empty_conv)
  with PumpIter pi show ?thesis
    by (auto simp: handle_def split: sum.splits)
qed

lemma run_running:
  assumes "truthy (cfg_child_pid w)" and "cfg_fd w = Some f" and "f \<noteq> 0"
  shows "\<exists>w'. run env evs w = Some w' \<and> cfg_fd w' = cfg_fd w \<and> cfg_child_pid w' = cfg_child_pid w
      \<and> filter is_Write (trace w') = filter is_Write (trace w) @ map (Write f) (List.map_filter input_bytes evs)"
  using assms
proof (induction evs arbitrary: w)
  case Nil
  then show ?case by (simp add: List.map_filter_simps)
next
  case (Cons ev evs)
  from handle_running [OF Cons.prems, of env ev] obtain res w1 where
    h: "handle env ev w = Some (res, w1)" "cfg_fd w1 = cfg_fd w" "cfg_child_pid w1 = cfg_child_pid w"
    "filter is_Write (trace w1) = filter is_Write (trace w) @ map (Write f) (case input_bytes ev of None \<Rightarrow> [] | Some bs \<Rightarrow> [bs])"
    by blast
  from Cons.IH [of w1] h Cons.prems obtain w' where
    r: "run env evs w1 = Some w'" "cfg_fd w' = cfg_fd w1" "cfg_child_pid w' = cfg_child_pid w1"
     "filter is_Write (trace w') = filter is_Write (trace w1) @ map (Write f) (List.map_filter input_bytes evs)"
    by auto
  show ?case using h r by (auto simp: List.map_filter_simps split: option.splits)
qed

lemma pack_H_ushort: "ushort v \<Longrightarrow> \<exists>x. pack_H v = Inr x"
  by (cases v) (simp_all add: pack_H_def)

lemma pack_H_not_ushort: "\<not> ushort v \<Longrightarrow> pack_H v = Inl StructError"
  by (cases v) (simp_all add: pack_H_def)

lemma pack_H_zero: "pack_H (JInt 0) = Inr 0"
  by (simp add: pack_H_def)

section \<open>Input reaches the pty as typed\<close>

text \<open>Claim C2. While a session is attached (\<^verbatim>\<open>fd\<close> and \<^verbatim>\<open>child_pid\<close> set and non-zero),
  whatever events the server handles, the \<^verbatim>\<open>os.write\<close> calls it makes are exactly the
  UTF-8 encodings of the inputs delivered, each written to the pty handle, in the order of
  delivery; one input is one write of its bytes and raises nothing. With no attached
  session, \<^verbatim>\<open>pty_input\<close> changes nothing and raises nothing, whatever the payload.\<close>

theorem pty_input_writes_exactly:
  "(truthy (cfg_child_pid w) \<and> cfg_fd w = Some f \<and> f \<noteq> 0 \<longrightarrow>
      (\<exists>w'. run env evs w = Some w' \<and>
         filter is_Write (trace w') =
           filter is_Write (trace w) @ map (Write f) (List.map_filter input_bytes evs)))
   \<and> (cfg_fd w = Some f \<and> f \<noteq> 0 \<and> data ''input'' = Some (JStr s) \<and> str_encode s = Inr bs \<longrightarrow>
        pty_input data w = (Inr (), log (Write f bs) w))
   \<and> (\<not> truthy (cfg_fd w) \<longrightarrow> pty_input data w = (Inr (), w))"
proof (intro conjI impI)
  assume "truthy (cfg_child_pid w) \<and> cfg_fd w = Some f \<and> f \<noteq> 0"
  then show "\<exists>w'. run env evs w = Some w' \<and>
         filter is_Write (trace w') =
           filter is_Write (trace w) @ map (Write f) (List.map_filter input_bytes evs)"
    using run_running [of w f env evs] by blast
next
  assume "cfg_fd w = Some f \<and> f \<noteq> 0 \<and> data ''input'' = Some (JStr s) \<and> str_encode s = Inr bs"
  then show "pty_input data w = (Inr (), log (Write f bs) w)"
    by (simp add: pty_input_def)
next
  assume "\<not> truthy (cfg_fd w)"
  then show "pty_input data w = (Inr (), w)"
    by (cases "cfg_fd w") (simp_all add: pty_input_def)
qed

theorem pty_input_writes_exactly_witness:
  "(\<exists>w'. run (\<lambda>i. (MkdtempRaises, RunRaises OSError))
            [PtyInput [''input'' \<mapsto> JStr [108, 115]], PumpIter NotReady,
             PtyInput [''input'' \<mapsto> JStr [233, 10]]]
            \<lparr>cfg_fd = Some 5, cfg_child_pid = Some 1234, cfg_cmd = [''bash''], cfg_useTmp = None,
             cfg_tmp = None, pumps = 1, trace = [Fork 1234 5, Ioctl 5 (50, 50, 0, 0), StartTask]\<rparr>
          = Some w'
      \<and> filter is_Write (trace w') = [Write 5 [108, 115], Write 5 [195, 169, 10]])
   \<and> pty_input [''input'' \<mapsto> JStr [108, 115]]
        \<lparr>cfg_fd = Some 5, cfg_child_pid = Some 1234, cfg_cmd = [''bash''], cfg_useTmp = None,
         cfg_tmp = None, pumps = 1, trace = []\<rparr>
      = (Inr (), \<lparr>cfg_fd = Some 5, cfg_child_pid = Some 1234, cfg_cmd = [''bash''],
                  cfg_useTmp = None, cfg_tmp = None, pumps = 1, trace = [Write 5 [108, 115]]\<rparr>)
   \<and> pty_input [''input'' \<mapsto> JStr [108, 115]] (init [''bash''] None)
      = (Inr (), init [''bash''] None)"
  using pty_input_writes_exactly
          [of "\<lparr>cfg_fd = Some 5, cfg_child_pid = Some 1234, cfg_cmd = [''bash''], cfg_useTmp = None,
             cfg_tmp = None, pumps = 1, trace = [Fork 1234 5, Ioctl 5 (50, 50, 0, 0), StartTask]\<rparr>"
            5 "\<lambda>i. (MkdtempRaises, RunRaises OSError)"
            "[PtyInput [''input'' \<mapsto> JStr [108, 115]], PumpIter NotReady,
             PtyInput [''input'' \<mapsto> JStr [233, 10]]]"]
        pty_input_writes_exactly
          [of "\<lparr>cfg_fd = Some 5, cfg_child_pid = Some 1234, cfg_cmd = [''bash''], cfg_useTmp = None,
         cfg_tmp = None, pumps = 1, trace = []\<rparr>" 5 _ _ "[''input'' \<mapsto> JStr [108, 115]]"
              "[108, 115]" "[108, 115]"]
        pty_input_writes_exactly [of "init [''bash''] None" _ _ _ "[''input'' \<mapsto> JStr [108, 115]]"]
  by (simp add: init_def str_encode_def utf8_encode_cp_def List.map_filter_simps log_def)

section \<open>Resize calls the ioctl for any 16-bit sizes\<close>

lemma pack_H_error: "pack_H v = Inl e \<Longrightarrow> e = StructError"
  by (cases v) (simp_all add: pack_H_def split: if_splits)

lemma resize_detached: "\<not> truthy (cfg_fd w) \<Longrightarrow> resize data w = (Inr (), w)"
  by (cases "cfg_fd w") (simp_all add: resize_def)

lemma resize_missing:
  "data ''rows'' = None \<or> data ''cols'' = None \<Longrightarrow> resize data w = (Inr (), w)"
  by (auto simp: resize_def split: option.splits)

lemma resize_attached:
  assumes "cfg_fd w = Some f" "f \<noteq> 0" "data ''rows'' = Some r" "data ''cols'' = Some c"
  shows "ushort r \<and> ushort c \<Longrightarrow>
           \<exists>x y. pack_H r = Inr x \<and> pack_H c = Inr y
             \<and> resize data w = (Inr (), log (Ioctl f (x, y, 0, 0)) w)"
    and "\<not> (ushort r \<and> ushort c) \<Longrightarrow> resize data w = (Inl StructError, w)"
proof -
  assume "ushort r \<and> ushort c"
  then obtain x y where "pack_H r = Inr x" "pack_H c = Inr y"
    using pack_H_ushort by blast
  with assms show "\<exists>x y. pack_H r = Inr x \<and> pack_H c = Inr y
             \<and> resize data w = (Inr (), log (Ioctl f (x, y, 0, 0)) w)"
    by (simp add: resize_def set_winsize_def pack_HHHH_def pack_H_zero)
next
  assume "\<not> (ushort r \<and> ushort c)"
  then have "pack_H r = Inl StructError \<or> pack_H c = Inl StructError"
    using pack_H_not_ushort by blast
  with assms show "resize data w = (Inl StructError, w)"
    by (auto simp: resize_def set_winsize_def pack_HHHH_def split: sum.splits
          dest: pack_H_error)
qed

text \<open>Claim C6, as amended. \<^verbatim>\<open>resize\<close> makes the window-size \<^verbatim>\<open>ioctl\<close> exactly when a
  session is attached, both \<^verbatim>\<open>rows\<close> and \<^verbatim>\<open>cols\<close> are present and both are ints from
  \<open>0\<close> to \<open>65535\<close> (zero included; a bool counts as \<open>0\<close> or \<open>1\<close>); the call carries the two
  values and zero pixel sizes. With no attached session or a missing field it does nothing
  and raises nothing. With both fields present and a value that is not such an int,
  \<^verbatim>\<open>struct.pack\<close> raises and no call is made.\<close>

theorem resize_calls_ioctl_iff:
  "(added w (snd (resize data w)) \<noteq> []
      \<longleftrightarrow> truthy (cfg_fd w) \<and>
          (\<exists>r c. data ''rows'' = Some r \<and> data ''cols'' = Some c \<and> ushort r \<and> ushort c))
   \<and> (\<not> truthy (cfg_fd w) \<or> data ''rows'' = None \<or> data ''cols'' = None \<longrightarrow>
        resize data w = (Inr (), w))
   \<and> (cfg_fd w = Some f \<and> f \<noteq> 0 \<and> data ''rows'' = Some r \<and> data ''cols'' = Some c \<longrightarrow>
        (if ushort r \<and> ushort c
         then \<exists>x y. pack_H r = Inr x \<and> pack_H c = Inr y
                \<and> resize data w = (Inr (), log (Ioctl f (x, y, 0, 0)) w)
         else resize data w = (Inl StructError, w)))"
proof (intro conjI impI)
  show "added w (snd (resize data w)) \<noteq> []
      \<longleftrightarrow> truthy (cfg_fd w) \<and>
          (\<exists>r c. data ''rows'' = Some r \<and> data ''cols'' = Some c \<and> ushort r \<and> ushort c)"
  proof (cases "truthy (cfg_fd w)")
    case False
    then show ?thesis by (simp add: resize_detached)
  next
    case True
    then obtain f where f: "cfg_fd w = Some f" "f \<noteq> 0" by (cases "cfg_fd w") auto
    show ?thesis
    proof (cases "data ''rows'' = None \<or> data ''cols'' = None")
      case True
      then show ?thesis by (auto simp: resize_missing)
    next
      case False
      then obtain r c where rc: "data ''rows'' = Some r" "data ''cols'' = Some c" by auto
      show ?thesis
      proof (cases "ushort r \<and> ushort c")
        case True
        from resize_attached(1) [OF f rc True] show ?thesis
          using True f rc by (auto simp: log_def)
      next
        case False
        from resize_attached(2) [OF f rc False] show ?thesis
          using False f rc by auto
      qed
    qed
  qed
next
  assume "\<not> truthy (cfg_fd w) \<or> data ''rows'' = None \<or> data ''cols'' = None"
  then show "resize data w = (Inr (), w)"
    using resize_detached resize_missing by blast
next
  assume a: "cfg_fd w = Some f \<and> f \<noteq> 0 \<and> data ''rows'' = Some r \<and> data ''cols'' = Some c"
  show "if ushort r \<and> ushort c
         then \<exists>x y. pack_H r = Inr x \<and> pack_H c = Inr y
                \<and> resize data w = (Inr (), log (Ioctl f (x, y, 0, 0)) w)
         else resize data w = (Inl StructError, w)"
    using resize_attached [of w f data r c] a by auto
qed

theorem resize_calls_ioctl_iff_witness:
  "resize [''rows'' \<mapsto> JInt 40, ''cols'' \<mapsto> JInt 120]
     ((init [''bash''] None)\<lparr>cfg_fd := Some 5, cfg_child_pid := Some 1234\<rparr>)
     = (Inr (), (init [''bash''] None)
           \<lparr>cfg_fd := Some 5, cfg_child_pid := Some 1234, trace := [Ioctl 5 (40, 120, 0, 0)]\<rparr>)
   \<and> resize [''rows'' \<mapsto> JInt 40, ''cols'' \<mapsto> JInt (- 1)]
     ((init [''bash''] None)\<lparr>cfg_fd := Some 5, cfg_child_pid := Some 1234\<rparr>)
     = (Inl StructError, (init [''bash''] None)\<lparr>cfg_fd := Some 5, cfg_child_pid := Some 1234\<rparr>)
   \<and> resize [''rows'' \<mapsto> JInt 40]
     ((init [''bash''] None)\<lparr>cfg_fd := Some 5, cfg_child_pid := Some 1234\<rparr>)
     = (Inr (), (init [''bash''] None)\<lparr>cfg_fd := Some 5, cfg_child_pid := Some 1234\<rparr>)
   \<and> resize [''rows'' \<mapsto> JInt 40, ''cols'' \<mapsto> JInt 120] (init [''bash''] None)
     = (Inr (), init [''bash''] None)"
  using resize_calls_ioctl_iff
          [of "(init [''bash''] None)\<lparr>cfg_fd := Some 5, cfg_child_pid := Some 1234\<rparr>"
              "[''rows'' \<mapsto> JInt 40, ''cols'' \<mapsto> JInt 120]" 5 "JInt 40" "JInt 120"]
        resize_calls_ioctl_iff
          [of "(init [''bash''] None)\<lparr>cfg_fd := Some 5, cfg_child_pid := Some 1234\<rparr>"
              "[''rows'' \<mapsto> JInt 40, ''cols'' \<mapsto> JInt (- 1)]" 5 "JInt 40" "JInt (- 1)"]
        resize_calls_ioctl_iff
          [of "(init [''bash''] None)\<lparr>cfg_fd := Some 5, cfg_child_pid := Some 1234\<rparr>"
              "[''rows'' \<mapsto> JInt 40]"]
        resize_calls_ioctl_iff
          [of "init [''bash''] None" "[''rows'' \<mapsto> JInt 40, ''cols'' \<mapsto> JInt 120]"]
  by (simp add: init_def log_def pack_H_def)

text \<open>The claim as stated fails: a resize to zero rows and zero columns, on an attached
  session, makes the \<^verbatim>\<open>ioctl\<close>.\<close>

theorem resize_zero_counterexample:
  "run (\<lambda>i. (MkdtempRaises, RunRaises OSError))
     [Connect (Forked 1234 5), Resize [''rows'' \<mapsto> JInt 0, ''cols'' \<mapsto> JInt 0]]
     (init [''bash''] None)
   = Some \<lparr>cfg_fd = Some 5, cfg_child_pid = Some 1234, cfg_cmd = [''bash''], cfg_useTmp = None,
           cfg_tmp = None, pumps = 1,
           trace = [Fork 1234 5, Ioctl 5 (50, 50, 0, 0), StartTask, Ioctl 5 (0, 0, 0, 0)]\<rparr>"
  by (simp add: handle_def connect_def resize_def set_winsize_def pack_HHHH_def pack_H_def
        init_def log_def)

section \<open>One child and one pump\<close>

lemma connect_first:
  assumes "\<not> truthy (cfg_child_pid w)" and "p \<noteq> 0"
  shows "connect env (Forked p f) w =
           Some (Inl TypeError,
                 w\<lparr>cfg_fd := Some f, cfg_child_pid := Some p, pumps := Suc (pumps w),
                   trace := trace w @ [Fork p f, Ioctl f (50, 50, 0, 0), StartTask]\<rparr>)"
  using assms
  by (simp add: connect_def set_winsize_def pack_HHHH_def pack_H_def log_def)

lemma connect_again: "truthy (cfg_child_pid w) \<Longrightarrow> connect env fo w = Some (Inr (), w)"
  by (simp add: connect_def)

lemma added_trans:
  assumes "trace w1 = trace w @ added w w1" and "trace w2 = trace w1 @ added w1 w2"
  shows "trace w2 = trace w @ added w w2" and "added w w2 = added w w1 @ added w1 w2"
proof -
  have e: "trace w2 = trace w @ (added w w1 @ added w1 w2)"
    using assms by (metis append.assoc)
  then have "drop (length (trace w)) (trace w2) = added w w1 @ added w1 w2"
    by (metis append_eq_conv_conj)
  then show a: "added w w2 = added w w1 @ added w1 w2"
    unfolding added_def [of w w2] .
  show "trace w2 = trace w @ added w w2"
    using e a by simp
qed

lemma handle_session:
  assumes "truthy (cfg_child_pid w)"
  shows "\<exists>res w'. handle env ev w = Some (res, w') \<and> cfg_fd w' = cfg_fd w
           \<and> cfg_child_pid w' = cfg_child_pid w \<and> pumps w' \<le> pumps w
           \<and> trace w' = trace w @ added w w'
           \<and> (\<forall>a\<in>set (added w w'). \<not> is_Fork a \<and> \<not> is_StartTask a)"
proof (cases ev)
  case (Connect fo)
  then show ?thesis using assms by (simp add: handle_def connect_again)
next
  case (PtyInput data)
  then show ?thesis
    by (auto simp: handle_def pty_input_def log_def split: option.splits jval.splits sum.splits)
next
  case (Resize data)
  then show ?thesis
    by (auto simp: handle_def resize_def set_winsize_def log_def split: option.splits sum.splits)
next
  case (PumpIter p)
  obtain res w' where pi: "pump_iter p w = (res, w')" by (cases "pump_iter p w")
  from pump_iter_frame [OF pi] have w': "w' = w\<lparr>trace := trace w @ added w w'\<rparr>"
     and new: "\<forall>a\<in>set (added w w'). is_Sleep a \<or> is_Select a \<or> is_Read a \<or> is_Emit a"
    by blast+
  from w' have "cfg_fd w' = cfg_fd w" "cfg_child_pid w' = cfg_child_pid w" "pumps w' = pumps w"
      "trace w' = trace w @ added w w'"
    by (metis select_convs surjective update_convs)+
  moreover have "\<forall>a\<in>set (added w w'). \<not> is_Fork a \<and> \<not> is_StartTask a"
    using new by (auto simp: is_Fork_def is_StartTask_def)
  ultimately show ?thesis using PumpIter pi
    by (auto simp: handle_def added_def split: sum.splits)
qed

lemma run_session:
  assumes "truthy (cfg_child_pid w)"
  shows "\<exists>w'. run env evs w = Some w' \<and> cfg_fd w' = cfg_fd w
           \<and> cfg_child_pid w' = cfg_child_pid w \<and> pumps w' \<le> pumps w
           \<and> trace w' = trace w @ added w w'
           \<and> (\<forall>a\<in>set (added w w'). \<not> is_Fork a \<and> \<not> is_StartTask a)"
  using assms
proof (induction evs arbitrary: w)
  case Nil
  then show ?case by simp
next
  case (Cons ev evs)
  from handle_session [OF Cons.prems, of env ev] obtain res w1 where
    h: "handle env ev w = Some (res, w1)" "cfg_fd w1 = cfg_fd w"
       "cfg_child_pid w1 = cfg_child_pid w" "pumps w1 \<le> pumps w"
       "trace w1 = trace w @ added w w1"
       "\<forall>a\<in>set (added w w1). \<not> is_Fork a \<and> \<not> is_StartTask a"
    by blast
  from Cons.IH [of w1] h(3) Cons.prems obtain w2 where
    r: "run env evs w1 = Some w2" "cfg_fd w2 = cfg_fd w1"
       "cfg_child_pid w2 = cfg_child_pid w1" "pumps w2 \<le> pumps w1"
       "trace w2 = trace w1 @ added w1 w2"
       "\<forall>a\<in>set (added w1 w2). \<not> is_Fork a \<and> \<not> is_StartTask a"
    by auto
  note t = added_trans [OF h(5) r(5)]
  have "\<forall>a\<in>set (added w w2). \<not> is_Fork a \<and> \<not> is_StartTask a"
    using h(6) r(6) by (auto simp: t(2))
  then show ?case using h r t(1) by simp
qed

lemma run_connects_session:
  "truthy (cfg_child_pid w) \<Longrightarrow> run env (map Connect fos) w = Some w"
  by (induction fos) (simp_all add: handle_def connect_again)

text \<open>Claim C1. From the start of the server, the first connect event (its \<^verbatim>\<open>pty.fork\<close>
  returning in the parent, with the child's pid \<open>p\<close> and the pty handle \<open>f\<close>) forks one
  child on a pty, stores the session, sets the window size to 50 by 50 and starts one pump
  task, in that order, before the handler of any other event runs. Any number of further
  connect events leave that state as it is, whatever \<^verbatim>\<open>pty.fork\<close> would have returned. With
  any events after the first connect (connects, inputs, resizes, pump iterations) the run
  has exactly one fork and exactly one started pump task, and its trace begins with the
  fork, the 50 by 50 \<^verbatim>\<open>ioctl\<close> and the start of the task.\<close>

theorem connect_spawns_once:
  "p \<noteq> 0 \<longrightarrow>
     connect env (Forked p f) (init c u) =
       Some (Inl TypeError,
             (init c u)\<lparr>cfg_fd := Some f, cfg_child_pid := Some p, pumps := 1,
                        trace := [Fork p f, Ioctl f (50, 50, 0, 0), StartTask]\<rparr>)
     \<and> run env (Connect (Forked p f) # map Connect fos) (init c u) =
         Some ((init c u)\<lparr>cfg_fd := Some f, cfg_child_pid := Some p, pumps := 1,
                          trace := [Fork p f, Ioctl f (50, 50, 0, 0), StartTask]\<rparr>)
     \<and> (\<exists>w'. run env (Connect (Forked p f) # evs) (init c u) = Some w'
           \<and> filter is_Fork (trace w') = [Fork p f]
           \<and> filter is_StartTask (trace w') = [StartTask]
           \<and> take 3 (trace w') = [Fork p f, Ioctl f (50, 50, 0, 0), StartTask]
           \<and> pumps w' \<le> 1)"
proof
  assume p: "p \<noteq> 0"
  let ?w1 = "(init c u)\<lparr>cfg_fd := Some f, cfg_child_pid := Some p, pumps := 1,
                        trace := [Fork p f, Ioctl f (50, 50, 0, 0), StartTask]\<rparr>"
  have first: "connect env (Forked p f) (init c u) = Some (Inl TypeError, ?w1)"
    using connect_first [of "init c u" p env f] p by (simp add: init_def)
  have pid: "truthy (cfg_child_pid ?w1)" using p by simp
  have conns: "run env (Connect (Forked p f) # map Connect fos) (init c u) = Some ?w1"
    using first run_connects_session [OF pid] by (simp add: handle_def)
  from run_session [OF pid, of env evs] obtain w' where
    r: "run env evs ?w1 = Some w'" "pumps w' \<le> pumps ?w1"
       "trace w' = trace ?w1 @ added ?w1 w'"
       "\<forall>a\<in>set (added ?w1 w'). \<not> is_Fork a \<and> \<not> is_StartTask a"
    by blast
  have "run env (Connect (Forked p f) # evs) (init c u) = Some w'"
    using first r(1) by (simp add: handle_def)
  moreover have "filter is_Fork (trace w') = [Fork p f]"
    using r(4) by (simp add: r(3) filter_empty_conv)
  moreover have "filter is_StartTask (trace w') = [StartTask]"
    using r(4) by (simp add: r(3) filter_empty_conv)
  moreover have "take 3 (trace w') = [Fork p f, Ioctl f (50, 50, 0, 0), StartTask]"
    by (simp add: r(3))
  moreover have "pumps w' \<le> 1" using r(2) by simp
  ultimately show "connect env (Forked p f) (init c u) = Some (Inl TypeError, ?w1)
     \<and> run env (Connect (Forked p f) # map Connect fos) (init c u) = Some ?w1
     \<and> (\<exists>w'. run env (Connect (Forked p f) # evs) (init c u) = Some w'
           \<and> filter is_Fork (trace w') = [Fork p f]
           \<and> filter is_StartTask (trace w') = [StartTask]
           \<and> take 3 (trace w') = [Fork p f, Ioctl f (50, 50, 0, 0), StartTask]
           \<and> pumps w' \<le> 1)"
    using first conns by blast
qed

theorem connect_spawns_once_witness:
  "run (\<lambda>i. (MkdtempRaises, RunRaises OSError))
     [Connect (Forked 1234 5), Connect (Forked 1300 6), Connect ForkRaises, Connect (Forked 0 7)]
     (init [''bash''] None)
   = Some \<lparr>cfg_fd = Some 5, cfg_child_pid = Some 1234, cfg_cmd = [''bash''], cfg_useTmp = None,
           cfg_tmp = None, pumps = 1,
           trace = [Fork 1234 5, Ioctl 5 (50, 50, 0, 0), StartTask]\<rparr>"
  using connect_spawns_once
          [of 1234 "\<lambda>i. (MkdtempRaises, RunRaises OSError)" 5 "[''bash'']" None
              "[Forked 1300 6, ForkRaises, Forked 0 7]"]
  by (simp add: init_def)

section \<open>No teardown\<close>

lemma pty_input_attached:
  "cfg_fd w = Some f \<Longrightarrow> f \<noteq> 0 \<Longrightarrow> data ''input'' = Some (JStr s) \<Longrightarrow> str_encode s = Inr bs
     \<Longrightarrow> pty_input data w = (Inr (), log (Write f bs) w)"
  by (simp add: pty_input_def)

text \<open>Claim C10. Once a connect has stored the pty handle and the child's pid, no event
  changes either: after any events (connects, inputs, resizes, pump iterations, also
  iterations whose read fails or finds end of file because the child has gone) both hold
  the values the connect stored. So, the handle being non-zero, an input is still written
  to it and a resize still reaches the \<^verbatim>\<open>ioctl\<close>. The same holds from any state whose
  \<^verbatim>\<open>child_pid\<close> is set.\<close>

theorem session_never_cleared:
  "(truthy (cfg_child_pid w) \<longrightarrow>
      (\<exists>w'. run env evs w = Some w' \<and> cfg_fd w' = cfg_fd w
         \<and> cfg_child_pid w' = cfg_child_pid w))
   \<and> (p \<noteq> 0 \<longrightarrow>
        (\<exists>w'. run env (Connect (Forked p f) # evs) (init c u) = Some w'
           \<and> cfg_fd w' = Some f \<and> cfg_child_pid w' = Some p
           \<and> (f \<noteq> 0 \<and> data ''input'' = Some (JStr s) \<and> str_encode s = Inr bs \<longrightarrow>
                pty_input data w' = (Inr (), log (Write f bs) w'))
           \<and> (f \<noteq> 0 \<and> rdata ''rows'' = Some r \<and> rdata ''cols'' = Some cl
                \<and> ushort r \<and> ushort cl \<longrightarrow>
                (\<exists>x y. resize rdata w' = (Inr (), log (Ioctl f (x, y, 0, 0)) w')))))"
proof (intro conjI impI)
  assume "truthy (cfg_child_pid w)"
  from run_session [OF this, of env evs]
  show "\<exists>w'. run env evs w = Some w' \<and> cfg_fd w' = cfg_fd w
         \<and> cfg_child_pid w' = cfg_child_pid w"
    by blast
next
  assume p: "p \<noteq> 0"
  let ?w1 = "(init c u)\<lparr>cfg_fd := Some f, cfg_child_pid := Some p, pumps := 1,
                        trace := [Fork p f, Ioctl f (50, 50, 0, 0), StartTask]\<rparr>"
  have first: "connect env (Forked p f) (init c u) = Some (Inl TypeError, ?w1)"
    using connect_first [of "init c u" p env f] p by (simp add: init_def)
  have pid: "truthy (cfg_child_pid ?w1)" using p by simp
  from run_session [OF pid, of env evs] obtain w' where
    r: "run env evs ?w1 = Some w'" "cfg_fd w' = cfg_fd ?w1" "cfg_child_pid w' = cfg_child_pid ?w1"
    by blast
  have run: "run env (Connect (Forked p f) # evs) (init c u) = Some w'"
    using first r(1) by (simp add: handle_def)
  have fd: "cfg_fd w' = Some f" and cp: "cfg_child_pid w' = Some p"
    using r by simp_all
  have inp: "f \<noteq> 0 \<and> data ''input'' = Some (JStr s) \<and> str_encode s = Inr bs \<longrightarrow>
                pty_input data w' = (Inr (), log (Write f bs) w')"
    using pty_input_attached [OF fd] by blast
  have rsz: "f \<noteq> 0 \<and> rdata ''rows'' = Some r \<and> rdata ''cols'' = Some cl
                \<and> ushort r \<and> ushort cl \<longrightarrow>
                (\<exists>x y. resize rdata w' = (Inr (), log (Ioctl f (x, y, 0, 0)) w'))"
    using resize_attached(1) [OF fd, of rdata r cl] by blast
  show "\<exists>w'. run env (Connect (Forked p f) # evs) (init c u) = Some w'
           \<and> cfg_fd w' = Some f \<and> cfg_child_pid w' = Some p
           \<and> (f \<noteq> 0 \<and> data ''input'' = Some (JStr s) \<and> str_encode s = Inr bs \<longrightarrow>
                pty_input data w' = (Inr (), log (Write f bs) w'))
           \<and> (f \<noteq> 0 \<and> rdata ''rows'' = Some r \<and> rdata ''cols'' = Some cl
                \<and> ushort r \<and> ushort cl \<longrightarrow>
                (\<exists>x y. resize rdata w' = (Inr (), log (Ioctl f (x, y, 0, 0)) w')))"
    using run fd cp inp rsz by blast
qed

theorem session_never_cleared_witness:
  "(\<exists>w'. run (\<lambda>i. (MkdtempRaises, RunRaises OSError))
       [Connect (Forked 1234 5), PumpIter (Ready ReadRaises), PumpIter (Ready (Pending [])),
        Connect (Forked 1300 6), Resize [''rows'' \<mapsto> JInt 24, ''cols'' \<mapsto> JInt 80]]
       (init [''bash''] None) = Some w'
      \<and> cfg_fd w' = Some 5 \<and> cfg_child_pid w' = Some 1234
      \<and> pty_input [''input'' \<mapsto> JStr [120]] w' = (Inr (), log (Write 5 [120]) w')
      \<and> (\<exists>x y. resize [''rows'' \<mapsto> JInt 24, ''cols'' \<mapsto> JInt 80] w'
                 = (Inr (), log (Ioctl 5 (x, y, 0, 0)) w')))
   \<and> (\<exists>w'. run (\<lambda>i. (MkdtempRaises, RunRaises OSError))
              [PumpIter (Ready ReadRaises), PumpIter (Ready (Pending [])),
               Connect (Forked 1300 6), Resize [''rows'' \<mapsto> JInt 24, ''cols'' \<mapsto> JInt 80]]
              ((init [''bash''] None)\<lparr>cfg_fd := Some 5, cfg_child_pid := Some 1234, pumps := 1\<rparr>)
            = Some w'
         \<and> cfg_fd w' = Some 5 \<and> cfg_child_pid w' = Some 1234)"
  using session_never_cleared
          [of "(init [''bash''] None)\<lparr>cfg_fd := Some 5, cfg_child_pid := Some 1234, pumps := 1\<rparr>"
              "\<lambda>i. (MkdtempRaises, RunRaises OSError)"
              "[PumpIter (Ready ReadRaises), PumpIter (Ready (Pending [])),
                Connect (Forked 1300 6), Resize [''rows'' \<mapsto> JInt 24, ''cols'' \<mapsto> JInt 80]]"
              1234 5 "[''bash'']" None "[''input'' \<mapsto> JStr [120]]" "[120]" "[120]"
              "[''rows'' \<mapsto> JInt 24, ''cols'' \<mapsto> JInt 80]" "JInt 24" "JInt 80"]
  by (simp add: init_def str_encode_def utf8_encode_cp_def)

section \<open>Decoding with \<^verbatim>\<open>errors='ignore'\<close>\<close>

lemma utf8_decode_ignore_total: "\<exists>s. utf8_decode Ignore bs = Inr s"
proof (induction bs rule: length_induct)
  case (1 bs)
  show ?case
  proof (cases bs)
    case Nil
    then show ?thesis by simp
  next
    case (Cons ch bs')
    obtain r rest where st: "utf8_step ch bs' = (r, rest)" by (cases "utf8_step ch bs'")
    have "length rest < length bs" using utf8_step_rest [OF st] Cons by simp
    with 1 obtain s where "utf8_decode Ignore rest = Inr s" by blast
    with Cons st show ?thesis by (cases r) simp_all
  qed
qed

lemma utf8_decode_strict_ignore:
  "utf8_decode Strict bs = Inr t \<Longrightarrow> utf8_decode Ignore bs = Inr t"
proof (induction bs arbitrary: t rule: length_induct)
  case (1 bs)
  show ?case
  proof (cases bs)
    case Nil
    with 1 show ?thesis by simp
  next
    case (Cons ch bs')
    obtain r rest where st: "utf8_step ch bs' = (r, rest)" by (cases "utf8_step ch bs'")
    have len: "length rest < length bs" using utf8_step_rest [OF st] Cons by simp
    from 1(2) Cons st obtain c t' where c: "r = Some c" and t': "utf8_decode Strict rest = Inr t'"
      and t: "t = c # t'"
      by (cases r) (auto split: sum.splits)
    from 1(1) len t' have "utf8_decode Ignore rest = Inr t'" by blast
    with Cons st c t show ?thesis by simp
  qed
qed

lemma utf8_step_ascii:
  "utf8_step ch bs = (r, rest) \<Longrightarrow>
     filter (\<lambda>b. b < 128) (ch # bs) =
       filter (\<lambda>c. c < 128) (case r of None \<Rightarrow> [] | Some c \<Rightarrow> [c]) @ filter (\<lambda>b. b < 128) rest"
  by (auto simp: utf8_step_def is_cont_def split: if_splits list.splits)

lemma utf8_decode_ascii:
  "utf8_decode Ignore bs = Inr out \<Longrightarrow> filter (\<lambda>c. c < 128) out = filter (\<lambda>b. b < 128) bs"
proof (induction bs arbitrary: out rule: length_induct)
  case (1 bs)
  show ?case
  proof (cases bs)
    case Nil
    with 1 show ?thesis by simp
  next
    case (Cons ch bs')
    obtain r rest where st: "utf8_step ch bs' = (r, rest)" by (cases "utf8_step ch bs'")
    have len: "length rest < length bs" using utf8_step_rest [OF st] Cons by simp
    obtain out' where out': "utf8_decode Ignore rest = Inr out'"
      using utf8_decode_ignore_total by blast
    from 1(1) len out' have ih: "filter (\<lambda>c. c < 128) out' = filter (\<lambda>b. b < 128) rest" by blast
    have "out = (case r of None \<Rightarrow> [] | Some c \<Rightarrow> [c]) @ out'"
      using 1(2) Cons st out' by (cases r) auto
    then show ?thesis
      using utf8_step_ascii [OF st] ih Cons by simp
  qed
qed

lemma utf8_step_append:
  "utf8_step ch bs = (Some c, rest) \<Longrightarrow> utf8_step ch (bs @ ys) = (Some c, rest @ ys)"
  by (auto simp: utf8_step_def split: if_splits list.splits)

lemma utf8_decode_valid_prefix:
  "utf8_decode Strict xs = Inr s \<Longrightarrow> utf8_decode Ignore ys = Inr t
     \<Longrightarrow> utf8_decode Ignore (xs @ ys) = Inr (s @ t)"
proof (induction xs arbitrary: s rule: length_induct)
  case (1 xs)
  show ?case
  proof (cases xs)
    case Nil
    with 1 show ?thesis by simp
  next
    case (Cons ch bs')
    obtain r rest where st: "utf8_step ch bs' = (r, rest)" by (cases "utf8_step ch bs'")
    have len: "length rest < length xs" using utf8_step_rest [OF st] Cons by simp
    from 1(2) Cons st obtain c s' where c: "r = Some c" and s': "utf8_decode Strict rest = Inr s'"
      and s: "s = c # s'"
      by (cases r) (auto split: sum.splits)
    from 1(1) len s' 1(3) have "utf8_decode Ignore (rest @ ys) = Inr (s' @ t)" by blast
    moreover have "utf8_step ch (bs' @ ys) = (Some c, rest @ ys)"
      using utf8_step_append st c by blast
    ultimately show ?thesis using Cons s by simp
  qed
qed

lemma bytes_decode_ignore_total: "\<exists>out. bytes_decode Ignore bs = Inr out"
  by (simp add: bytes_decode_def utf8_decode_ignore_total)

lemma pump_iter_pending:
  assumes "cfg_fd w = Some f" "f \<noteq> 0" "bytes_decode Ignore (take max_read_bytes bs) = Inr out"
  shows "pump_iter (Ready (Pending bs)) w =
           (Inr (), w\<lparr>trace := trace w @
              [Sleep (1 / 100), Select f 0 True,
               Read f max_read_bytes (Inr (take max_read_bytes bs)), Emit out]\<rparr>)"
  using assms by (simp add: pump_iter_def os_read_def log_def)

text \<open>Claim C7. Decoding with \<^verbatim>\<open>errors='ignore'\<close> returns a text for every byte sequence:
  it never raises. Every ASCII byte of the input is in the text, in order (only bytes of
  invalid or multi-byte sequences go); valid UTF-8 ahead of anything else is decoded as
  the strict decoder decodes it, and the text of what follows is appended. So a pump
  iteration that reads any bytes at all raises nothing and emits one output event with the
  decoded text.\<close>

theorem decode_ignore_never_fails:
  "(\<exists>out. bytes_decode Ignore bs = Inr out
       \<and> filter (\<lambda>c. c < 128) out = map unat (filter (\<lambda>b. unat b < 128) bs))
   \<and> (bytes_decode Strict xs = Inr s \<longrightarrow>
        (\<exists>t. bytes_decode Ignore ys = Inr t \<and> bytes_decode Ignore (xs @ ys) = Inr (s @ t)))
   \<and> (cfg_fd w = Some f \<and> f \<noteq> 0 \<longrightarrow>
        (\<exists>out. bytes_decode Ignore (take max_read_bytes bs) = Inr out
           \<and> pump_iter (Ready (Pending bs)) w =
               (Inr (), w\<lparr>trace := trace w @
                  [Sleep (1 / 100), Select f 0 True,
                   Read f max_read_bytes (Inr (take max_read_bytes bs)), Emit out]\<rparr>)))"
proof (intro conjI impI)
  obtain out where out: "bytes_decode Ignore bs = Inr out"
    using bytes_decode_ignore_total by blast
  then have "filter (\<lambda>c. c < 128) out = filter (\<lambda>b. b < 128) (map unat bs)"
    using utf8_decode_ascii by (simp add: bytes_decode_def)
  also have "\<dots> = map unat (filter (\<lambda>b. unat b < 128) bs)"
    by (simp add: filter_map comp_def)
  finally show "\<exists>out. bytes_decode Ignore bs = Inr out
       \<and> filter (\<lambda>c. c < 128) out = map unat (filter (\<lambda>b. unat b < 128) bs)"
    using out by blast
next
  assume "bytes_decode Strict xs = Inr s"
  moreover obtain t where "bytes_decode Ignore ys = Inr t"
    using bytes_decode_ignore_total by blast
  ultimately show "\<exists>t. bytes_decode Ignore ys = Inr t \<and> bytes_decode Ignore (xs @ ys) = Inr (s @ t)"
    using utf8_decode_valid_prefix by (simp add: bytes_decode_def)
next
  assume a: "cfg_fd w = Some f \<and> f \<noteq> 0"
  obtain out where "bytes_decode Ignore (take max_read_bytes bs) = Inr out"
    using bytes_decode_ignore_total by blast
  then show "\<exists>out. bytes_decode Ignore (take max_read_bytes bs) = Inr out
           \<and> pump_iter (Ready (Pending bs)) w =
               (Inr (), w\<lparr>trace := trace w @
                  [Sleep (1 / 100), Select f 0 True,
                   Read f max_read_bytes (Inr (take max_read_bytes bs)), Emit out]\<rparr>)"
    using pump_iter_pending a by blast
qed

theorem decode_ignore_never_fails_witness:
  "bytes_decode Ignore [0x61, 0xFF, 0xE2, 0x82, 0x62] = Inr [97, 98]
   \<and> bytes_decode Strict [0x68, 0xC3, 0xA9] = Inr [104, 233]
   \<and> bytes_decode Ignore [0xC3, 0x21] = Inr [33]
   \<and> bytes_decode Ignore [0x68, 0xC3, 0xA9, 0xC3, 0x21] = Inr [104, 233, 33]
   \<and> pump_iter (Ready (Pending [0x61, 0xFF, 0xE2, 0x82, 0x62]))
        ((init [''bash''] None)\<lparr>cfg_fd := Some 5, cfg_child_pid := Some 1234, pumps := 1\<rparr>)
      = (Inr (), (init [''bash''] None)
           \<lparr>cfg_fd := Some 5, cfg_child_pid := Some 1234, pumps := 1,
            trace := [Sleep (1 / 100), Select 5 0 True,
                      Read 5 20480 (Inr [0x61, 0xFF, 0xE2, 0x82, 0x62]), Emit [97, 98]]\<rparr>)"
  using decode_ignore_never_fails
          [of "[0x61, 0xFF, 0xE2, 0x82, 0x62]" "[0x68, 0xC3, 0xA9]" "[104, 233]" "[0xC3, 0x21]"
              "(init [''bash''] None)\<lparr>cfg_fd := Some 5, cfg_child_pid := Some 1234, pumps := 1\<rparr>" 5]
  by (simp add: bytes_decode_def utf8_step_def is_cont_def init_def max_read_bytes_def)

section \<open>What the pump forwards\<close>

lemma map_filter_append [simp]:
  "List.map_filter g (xs @ ys) = List.map_filter g xs @ List.map_filter g ys"
  by (simp add: List.map_filter_def)

lemma pump_iter_cases:
  assumes "pump_iter p w = (res, w')"
  shows "w' = w\<lparr>trace := trace w @ added w w'\<rparr>"
    and "(\<not> truthy (cfg_fd w) \<and> res = Inr () \<and> added w w' = [Sleep (1 / 100)])
       \<or> (\<exists>f. cfg_fd w = Some f \<and> f \<noteq> 0 \<and>
            (p = NotReady \<and> res = Inr () \<and> added w w' = [Sleep (1 / 100), Select f 0 False]
           \<or> p = Ready ReadRaises \<and> res = Inl OSError
               \<and> added w w' = [Sleep (1 / 100), Select f 0 True, Read f 20480 (Inl OSError)]
           \<or> (\<exists>bs out. p = Ready (Pending bs) \<and> res = Inr ()
                 \<and> bytes_decode Ignore (take 20480 bs) = Inr out
                 \<and> added w w' = [Sleep (1 / 100), Select f 0 True,
                                  Read f 20480 (Inr (take 20480 bs)), Emit out])))"
proof -
  show "w' = w\<lparr>trace := trace w @ added w w'\<rparr>"
    using pump_iter_frame [OF assms] by blast
  show "(\<not> truthy (cfg_fd w) \<and> res = Inr () \<and> added w w' = [Sleep (1 / 100)])
       \<or> (\<exists>f. cfg_fd w = Some f \<and> f \<noteq> 0 \<and>
            (p = NotReady \<and> res = Inr () \<and> added w w' = [Sleep (1 / 100), Select f 0 False]
           \<or> p = Ready ReadRaises \<and> res = Inl OSError
               \<and> added w w' = [Sleep (1 / 100), Select f 0 True, Read f 20480 (Inl OSError)]
           \<or> (\<exists>bs out. p = Ready (Pending bs) \<and> res = Inr ()
                 \<and> bytes_decode Ignore (take 20480 bs) = Inr out
                 \<and> added w w' = [Sleep (1 / 100), Select f 0 True,
                                  Read f 20480 (Inr (take 20480 bs)), Emit out])))"
  proof (cases "cfg_fd w")
    case None
    with assms show ?thesis by (auto simp: pump_iter_def log_def)
  next
    case (Some f)
    show ?thesis
    proof (cases "f = 0")
      case True
      with Some assms show ?thesis by (auto simp: pump_iter_def log_def)
    next
      case False
      show ?thesis
      proof (cases p)
        case NotReady
        with Some False assms show ?thesis by (auto simp: pump_iter_def log_def)
      next
        case (Ready ro)
        show ?thesis
        proof (cases ro)
          case ReadRaises
          with Ready Some False assms show ?thesis
            by (auto simp: pump_iter_def log_def os_read_def max_read_bytes_def)
        next
          case (Pending bs)
          obtain out where "bytes_decode Ignore (take 20480 bs) = Inr out"
            using bytes_decode_ignore_total by blast
          with Pending Ready Some False assms show ?thesis
            by (auto simp: pump_iter_def log_def os_read_def max_read_bytes_def)
        qed
      qed
    qed
  qed
qed

lemma pump_iter_fd: "pump_iter p w = (res, w') \<Longrightarrow> cfg_fd w' = cfg_fd w"
  using pump_iter_cases(1) [of p w res w']
  by (metis select_convs(1) surjective update_convs(7))

lemma pump_iter_forwards:
  assumes "pump_iter p w = (res, w')"
  shows "map Inr (List.map_filter emit_text (added w w'))
           = map (bytes_decode Ignore) (List.map_filter read_bytes (added w w'))"
    and "truthy (cfg_fd w) \<Longrightarrow> p \<noteq> Ready ReadRaises \<Longrightarrow>
           res = Inr () \<and>
           List.map_filter read_bytes (added w w')
             = map (take max_read_bytes) (List.map_filter pending [p])"
  using pump_iter_cases(2) [OF assms]
  by (auto simp: List.map_filter_simps max_read_bytes_def)

text \<open>Claim C3, as amended. Over any number of iterations of the pump, the output events
  are the reads that returned, one event per read and in the same order, each carrying
  the bytes of its read decoded with \<^verbatim>\<open>errors='ignore'\<close>. A read of no bytes is
  forwarded like any other, as an event with empty text. While no read raises, the reads
  are the first \<^verbatim>\<open>max_read_bytes\<close> bytes of what the environment had pending at each poll
  that found the descriptor ready.\<close>

theorem pump_forwards_every_read:
  "\<exists>res w'. pump_run ps w = (res, w') \<and> trace w' = trace w @ added w w'
     \<and> map Inr (List.map_filter emit_text (added w w'))
         = map (bytes_decode Ignore) (List.map_filter read_bytes (added w w'))
     \<and> (truthy (cfg_fd w) \<and> Ready ReadRaises \<notin> set ps \<longrightarrow>
          res = Inr () \<and>
          List.map_filter read_bytes (added w w')
            = map (take max_read_bytes) (List.map_filter pending ps))"
proof (induction ps arbitrary: w)
  case Nil
  show ?case by (simp add: List.map_filter_simps)
next
  case (Cons p ps)
  obtain r1 w1 where it: "pump_iter p w = (r1, w1)" by (cases "pump_iter p w")
  note c = pump_iter_cases [OF it] and f = pump_iter_forwards [OF it]
  have t1: "trace w1 = trace w @ added w w1"
    using c(1) by (metis select_convs(7) surjective update_convs(7))
  show ?case
  proof (cases r1)
    case (Inl e)
    then have "pump_run (p # ps) w = (r1, w1)" using it by simp
    moreover have "\<not> (truthy (cfg_fd w) \<and> Ready ReadRaises \<notin> set (p # ps))"
      using f(2) Inl by auto
    ultimately show ?thesis using t1 f(1) by auto
  next
    case (Inr u)
    from Cons.IH [of w1] obtain res w' where
      r: "pump_run ps w1 = (res, w')" "trace w' = trace w1 @ added w1 w'"
         "map Inr (List.map_filter emit_text (added w1 w'))
            = map (bytes_decode Ignore) (List.map_filter read_bytes (added w1 w'))"
         "truthy (cfg_fd w1) \<and> Ready ReadRaises \<notin> set ps \<longrightarrow>
            res = Inr () \<and>
            List.map_filter read_bytes (added w1 w')
              = map (take max_read_bytes) (List.map_filter pending ps)"
      by blast
    note t = added_trans [OF t1 r(2)]
    have run: "pump_run (p # ps) w = (res, w')" using it Inr r(1) by simp
    have fwd: "map Inr (List.map_filter emit_text (added w w'))
         = map (bytes_decode Ignore) (List.map_filter read_bytes (added w w'))"
      using f(1) r(3) by (simp add: t(2))
    have env: "truthy (cfg_fd w) \<and> Ready ReadRaises \<notin> set (p # ps) \<longrightarrow>
          res = Inr () \<and>
          List.map_filter read_bytes (added w w')
            = map (take max_read_bytes) (List.map_filter pending (p # ps))"
    proof
      assume a: "truthy (cfg_fd w) \<and> Ready ReadRaises \<notin> set (p # ps)"
      then have "truthy (cfg_fd w1)" using pump_iter_fd [OF it] by simp
      with a r(4) have "res = Inr ()" "List.map_filter read_bytes (added w1 w')
              = map (take max_read_bytes) (List.map_filter pending ps)" by auto
      moreover have "List.map_filter read_bytes (added w w1)
             = map (take max_read_bytes) (List.map_filter pending [p])"
        using f(2) a by auto
      ultimately show "res = Inr () \<and>
          List.map_filter read_bytes (added w w')
            = map (take max_read_bytes) (List.map_filter pending (p # ps))"
        by (simp add: t(2) List.map_filter_simps split: option.splits)
    qed
    show ?thesis using run t(1) fwd env by blast
  qed
qed

theorem pump_forwards_every_read_witness:
  "pump_run [Ready (Pending [0x68, 0x69]), NotReady, Ready (Pending []), Ready (Pending [0xFF])]
     ((init [''bash''] None)\<lparr>cfg_fd := Some 5, cfg_child_pid := Some 1234, pumps := 1\<rparr>)
   = (Inr (), (init [''bash''] None)
        \<lparr>cfg_fd := Some 5, cfg_child_pid := Some 1234, pumps := 1,
         trace := [Sleep (1 / 100), Select 5 0 True, Read 5 20480 (Inr [0x68, 0x69]), Emit [104, 105],
                   Sleep (1 / 100), Select 5 0 False,
                   Sleep (1 / 100), Select 5 0 True, Read 5 20480 (Inr []), Emit [],
                   Sleep (1 / 100), Select 5 0 True, Read 5 20480 (Inr [0xFF]), Emit []]\<rparr>)"
  using pump_forwards_every_read
          [of "[Ready (Pending [0x68, 0x69]), NotReady, Ready (Pending []), Ready (Pending [0xFF])]"
              "(init [''bash''] None)\<lparr>cfg_fd := Some 5, cfg_child_pid := Some 1234, pumps := 1\<rparr>"]
  by (simp add: pump_iter_def os_read_def max_read_bytes_def bytes_decode_def utf8_step_def
        is_cont_def init_def log_def)

text \<open>The claim as stated fails: a read that returns no bytes is forwarded.\<close>

theorem pump_empty_read_counterexample:
  "run (\<lambda>i. (MkdtempRaises, RunRaises OSError))
     [Connect (Forked 1234 5), PumpIter (Ready (Pending []))] (init [''bash''] None)
   = Some \<lparr>cfg_fd = Some 5, cfg_child_pid = Some 1234, cfg_cmd = [''bash''], cfg_useTmp = None,
           cfg_tmp = None, pumps = 1,
           trace = [Fork 1234 5, Ioctl 5 (50, 50, 0, 0), StartTask,
                    Sleep (1 / 100), Select 5 0 True, Read 5 20480 (Inr []), Emit []]\<rparr>"
  by (simp add: handle_def connect_def set_winsize_def pack_HHHH_def pack_H_def pump_iter_def
        os_read_def max_read_bytes_def bytes_decode_def init_def log_def)

section \<open>The shape of a pump iteration\<close>

text \<open>Claim C4. Over any number of iterations of the pump, the calls made are one block
  per iteration run, and every block begins with a sleep of a hundredth of a second. With
  no attached descriptor the sleep is the whole block. Otherwise it is followed by one
  \<^verbatim>\<open>select\<close> on the descriptor with timeout zero, and only when that reported the
  descriptor ready by one \<^verbatim>\<open>os.read\<close> of at most 20480 bytes, which returns at most 20480
  bytes (forwarded in one event) or raises. An iteration raises only by its read, and the
  run ends with that block. No read is made except right after a zero-timeout
  \<^verbatim>\<open>select\<close> has reported the descriptor ready.\<close>

theorem pump_polls_before_reading:
  "\<exists>res w' blocks. pump_run ps w = (res, w') \<and> trace w' = trace w @ concat blocks
     \<and> cfg_fd w' = cfg_fd w
     \<and> (case res of Inr u \<Rightarrow> length blocks = length ps
                   | Inl e \<Rightarrow> e = OSError \<and> blocks \<noteq> [] \<and> length blocks \<le> length ps
                       \<and> is_Read (last (last blocks)))
     \<and> (\<forall>b\<in>set blocks.
           (\<not> truthy (cfg_fd w) \<and> b = [Sleep (1 / 100)])
         \<or> (\<exists>f. cfg_fd w = Some f \<and> f \<noteq> 0 \<and>
              (b = [Sleep (1 / 100), Select f 0 False]
             \<or> b = [Sleep (1 / 100), Select f 0 True, Read f 20480 (Inl OSError)]
             \<or> (\<exists>bs out. length bs \<le> 20480 \<and>
                   b = [Sleep (1 / 100), Select f 0 True, Read f 20480 (Inr bs), Emit out]))))"
proof (induction ps arbitrary: w)
  case Nil
  have "pump_run [] w = (Inr (), w) \<and> trace w = trace w @ concat []" by simp
  then show ?case by fastforce
next
  case (Cons p ps)
  let ?shape = "\<lambda>w b. (\<not> truthy (cfg_fd w) \<and> b = [Sleep (1 / 100)])
         \<or> (\<exists>f. cfg_fd w = Some f \<and> f \<noteq> 0 \<and>
              (b = [Sleep (1 / 100), Select f 0 False]
             \<or> b = [Sleep (1 / 100), Select f 0 True, Read f 20480 (Inl OSError)]
             \<or> (\<exists>bs out. length bs \<le> 20480 \<and>
                   b = [Sleep (1 / 100), Select f 0 True, Read f 20480 (Inr bs), Emit out])))"
  obtain r1 w1 where it: "pump_iter p w = (r1, w1)" by (cases "pump_iter p w")
  note c = pump_iter_cases [OF it]
  have t1: "trace w1 = trace w @ added w w1"
    using c(1) by (metis select_convs(7) surjective update_convs(7))
  have fd1: "cfg_fd w1 = cfg_fd w" by (rule pump_iter_fd [OF it])
  have b1: "?shape w (added w w1)"
    using c(2) by auto
  have err: "r1 = Inr () \<or> r1 = Inl OSError \<and> is_Read (last (added w w1))"
    using c(2) by auto
  show ?case
  proof (cases r1)
    case (Inl e)
    then have "pump_run (p # ps) w = (Inl OSError, w1)" using it err by auto
    moreover have "trace w1 = trace w @ concat [added w w1]" using t1 by simp
    moreover have "\<forall>b\<in>set [added w w1]. ?shape w b" using b1 by simp
    moreover have "is_Read (last (last [added w w1]))" using err Inl by auto
    ultimately show ?thesis using fd1
      by (intro exI [of _ "Inl OSError"] exI [of _ w1] exI [of _ "[added w w1]"]) simp
  next
    case (Inr u)
    from Cons.IH [of w1] obtain res w' blocks where
      r: "pump_run ps w1 = (res, w')" "trace w' = trace w1 @ concat blocks"
         "cfg_fd w' = cfg_fd w1"
         "case res of Inr u \<Rightarrow> length blocks = length ps
                   | Inl e \<Rightarrow> e = OSError \<and> blocks \<noteq> [] \<and> length blocks \<le> length ps
                       \<and> is_Read (last (last blocks))"
         "\<forall>b\<in>set blocks. ?shape w1 b"
      by blast
    have "pump_run (p # ps) w = (res, w')" using it Inr r(1) by simp
    moreover have "trace w' = trace w @ concat (added w w1 # blocks)"
      using t1 r(2) by simp
    moreover have "cfg_fd w' = cfg_fd w" using r(3) fd1 by simp
    moreover have "case res of Inr u \<Rightarrow> length (added w w1 # blocks) = length (p # ps)
                   | Inl e \<Rightarrow> e = OSError \<and> added w w1 # blocks \<noteq> []
                       \<and> length (added w w1 # blocks) \<le> length (p # ps)
                       \<and> is_Read (last (last (added w w1 # blocks)))"
      using r(4) by (auto split: sum.splits)
    moreover have "\<forall>b\<in>set (added w w1 # blocks). ?shape w b"
      using b1 r(5) fd1 by simp
    ultimately show ?thesis
      by (intro exI [of _ res] exI [of _ w'] exI [of _ "added w w1 # blocks"]) blast
  qed
qed

theorem pump_polls_before_reading_witness:
  "pump_run [NotReady, Ready (Pending [0x6F, 0x6B]), Ready ReadRaises, NotReady]
     ((init [''bash''] None)\<lparr>cfg_fd := Some 5, cfg_child_pid := Some 1234, pumps := 1\<rparr>)
   = (Inl OSError, (init [''bash''] None)
        \<lparr>cfg_fd := Some 5, cfg_child_pid := Some 1234, pumps := 1,
         trace := [Sleep (1 / 100), Select 5 0 False,
                   Sleep (1 / 100), Select 5 0 True, Read 5 20480 (Inr [0x6F, 0x6B]),
                   Emit [111, 107],
                   Sleep (1 / 100), Select 5 0 True, Read 5 20480 (Inl OSError)]\<rparr>)
   \<and> pump_run [NotReady, Ready (Pending [0x6F, 0x6B])] (init [''bash''] None)
     = (Inr (), (init [''bash''] None)\<lparr>trace := [Sleep (1 / 100), Sleep (1 / 100)]\<rparr>)"
  using pump_polls_before_reading
          [of "[NotReady, Ready (Pending [0x6F, 0x6B]), Ready ReadRaises, NotReady]"
              "(init [''bash''] None)\<lparr>cfg_fd := Some 5, cfg_child_pid := Some 1234, pumps := 1\<rparr>"]
        pump_polls_before_reading
          [of "[NotReady, Ready (Pending [0x6F, 0x6B])]" "init [''bash''] None"]
  by (simp add: pump_iter_def os_read_def max_read_bytes_def bytes_decode_def utf8_step_def
        is_cont_def init_def log_def)

section \<open>A failing read ends the pump and nothing else\<close>

lemma upt_step: "[i..<i + Suc n] = i # [Suc i..<Suc i + n]"
  by (simp add: upt_conv_Cons)

lemma loop_unroll:
  "pump_run (map env [i..<i + n]) w = (res, w') \<Longrightarrow>
     read_and_forward_pty_output env i w =
       (case res of Inl e \<Rightarrow> Some (e, w')
                  | Inr u \<Rightarrow> read_and_forward_pty_output env (i + n) w')"
proof (induction n arbitrary: i w)
  case 0
  then show ?case by auto
next
  case (Suc n)
  obtain r1 w1 where it: "pump_iter (env i) w = (r1, w1)" by (cases "pump_iter (env i) w")
  show ?case
  proof (cases r1)
    case (Inl e)
    with Suc.prems it have "res = Inl e" "w' = w1"
      by (simp_all only: upt_step list.map pump_run.simps split: sum.splits prod.splits) auto
    with it Inl show ?thesis
      by (subst read_and_forward_pty_output.simps) simp
  next
    case (Inr u)
    with Suc.prems it have "pump_run (map env [Suc i..<Suc i + n]) w1 = (res, w')"
      by (simp only: upt_step list.map pump_run.simps split: sum.splits prod.splits) auto
    from Suc.IH [OF this] it Inr show ?thesis
      by (subst read_and_forward_pty_output.simps) (simp split: sum.splits)
  qed
qed







section \<open>The child's loop\<close>

lemma child_iter_cases:
  assumes "child_iter oc w = (res, w')"
  shows "cfg_useTmp w' = cfg_useTmp w" and "cfg_cmd w' = cfg_cmd w"
    and "cfg_fd w' = cfg_fd w" and "cfg_child_pid w' = cfg_child_pid w"
    and "trace w' = trace w @ added w w'"
    and "round_raises w oc \<Longrightarrow>
           (\<exists>e. res = Inl e) \<and>
           length (filter is_Run (added w w')) =
             (if truthy_str (cfg_useTmp w) \<and> fst oc = MkdtempRaises then 0 else 1) \<and>
           (\<forall>a\<in>set (filter is_Run (added w w')). \<exists>cwd. a = Run (cfg_cmd w) cwd)"
    and "\<not> round_raises w oc \<Longrightarrow>
           res = Inr () \<and> (\<exists>cwd. filter is_Run (added w w') = [Run (cfg_cmd w) cwd])"
  using assms
  by (auto simp: child_iter_def subprocess_run_def round_raises_def log_def added_def Let_def
      split: mkdtemp_outcome.splits run_outcome.splits if_splits)

lemma round_raises_cong: "cfg_useTmp w' = cfg_useTmp w \<Longrightarrow> round_raises w' = round_raises w"
  by (simp add: round_raises_def fun_eq_iff)

lemma child_loop_returns_only_by_raise:
  assumes "child_loop env i w = Some y"
  shows "(\<exists>j\<ge>i. round_raises w (env j))"
proof (rule child_loop.raw_induct
    [where P = "\<lambda>env i w y. (\<exists>j\<ge>i. round_raises w (env j))", OF _ assms])
  fix loop :: "child_env \<Rightarrow> nat \<Rightarrow> world \<Rightarrow> (py_error \<times> world) option"
    and env i w y
  assume ih: "\<And>env i w y. loop env i w = Some y \<Longrightarrow>
      (\<exists>j\<ge>i. round_raises w (env j))"
    and st: "(case child_iter (env i) w of
        (Inl e, w') \<Rightarrow> Some (e, w')
      | (Inr u, w') \<Rightarrow> loop env (Suc i) w') = Some y"
  obtain r1 w1 where it: "child_iter (env i) w = (r1, w1)" by (cases "child_iter (env i) w")
  note c = child_iter_cases [OF it]
  show "(\<exists>j\<ge>i. round_raises w (env j))"
  proof (cases "round_raises w (env i)")
    case True
    then show ?thesis by auto
  next
    case False
    with c(7) st it have "loop env (Suc i) w1 = Some y" by auto
    from ih [OF this] round_raises_cong [OF c(1)] show ?thesis
      by (metis Suc_leD)
  qed
qed

lemma child_loop_rounds:
  assumes "\<forall>j. i \<le> j \<and> j < i + n \<longrightarrow> \<not> round_raises w (env j)"
  shows "\<exists>wn. child_run (map env [i..<i + n]) w = (Inr (), wn)
           \<and> cfg_useTmp wn = cfg_useTmp w \<and> cfg_cmd wn = cfg_cmd w
           \<and> trace wn = trace w @ added w wn
           \<and> length (filter is_Run (added w wn)) = n
           \<and> (\<forall>a\<in>set (filter is_Run (added w wn)). \<exists>cwd. a = Run (cfg_cmd w) cwd)
           \<and> child_loop env i w = child_loop env (i + n) wn"
  using assms
proof (induction n arbitrary: i w)
  case 0
  show ?case by simp
next
  case (Suc n)
  obtain r1 w1 where it: "child_iter (env i) w = (r1, w1)" by (cases "child_iter (env i) w")
  note c = child_iter_cases [OF it]
  have nr: "\<not> round_raises w (env i)" using Suc.prems by simp
  from c(7) [OF nr] obtain cwd where r1: "r1 = Inr ()"
    and run1: "filter is_Run (added w w1) = [Run (cfg_cmd w) cwd]" by blast
  have "\<forall>j. Suc i \<le> j \<and> j < Suc i + n \<longrightarrow> \<not> round_raises w1 (env j)"
    using Suc.prems round_raises_cong [OF c(1)] by simp
  from Suc.IH [OF this] obtain wn where
    r: "child_run (map env [Suc i..<Suc i + n]) w1 = (Inr (), wn)"
       "cfg_useTmp wn = cfg_useTmp w1" "cfg_cmd wn = cfg_cmd w1"
       "trace wn = trace w1 @ added w1 wn"
       "length (filter is_Run (added w1 wn)) = n"
       "\<forall>a\<in>set (filter is_Run (added w1 wn)). \<exists>cwd. a = Run (cfg_cmd w1) cwd"
       "child_loop env (Suc i) w1 = child_loop env (Suc i + n) wn"
    by blast
  note t = added_trans [OF c(5) r(4)]
  have "child_run (map env [i..<i + Suc n]) w = (Inr (), wn)"
    using it r1 r(1) by (simp only: upt_step list.map child_run.simps) simp
  moreover have "child_loop env i w = child_loop env (i + Suc n) wn"
    using it r1 r(7) by (subst child_loop.simps) simp
  moreover have "length (filter is_Run (added w wn)) = Suc n"
    using run1 r(5) by (simp add: t(2))
  moreover have "\<forall>a\<in>set (filter is_Run (added w wn)). \<exists>cwd. a = Run (cfg_cmd w) cwd"
    using run1 r(6) c(2) by (auto simp: t(2))
  ultimately show ?case using r(2,3) c(1,2) t(1) by simp
qed

lemma child_loop_leaves_at:
  assumes "\<forall>j. i \<le> j \<and> j < i + n \<longrightarrow> \<not> round_raises w (env j)"
    and "round_raises w (env (i + n))"
    and "child_run (map env [i..<i + n]) w = (Inr (), wn)"
  shows "\<exists>e w'. child_iter (env (i + n)) wn = (Inl e, w')
           \<and> child_loop env i w = Some (e, w')
           \<and> trace w' = trace w @ added w w'
           \<and> length (filter is_Run (added w w')) =
               n + (if truthy_str (cfg_useTmp w) \<and> fst (env (i + n)) = MkdtempRaises
                    then 0 else 1)
           \<and> (\<forall>a\<in>set (filter is_Run (added w w')). \<exists>cwd. a = Run (cfg_cmd w) cwd)"
proof -
  from child_loop_rounds [OF assms(1)] assms(3) have
    r: "cfg_useTmp wn = cfg_useTmp w" "cfg_cmd wn = cfg_cmd w"
       "trace wn = trace w @ added w wn"
       "length (filter is_Run (added w wn)) = n"
       "\<forall>a\<in>set (filter is_Run (added w wn)). \<exists>cwd. a = Run (cfg_cmd w) cwd"
       "child_loop env i w = child_loop env (i + n) wn"
    by auto
  obtain r1 w' where it: "child_iter (env (i + n)) wn = (r1, w')"
    by (cases "child_iter (env (i + n)) wn")
  note c = child_iter_cases [OF it]
  have rr: "round_raises wn (env (i + n))"
    using assms(2) round_raises_cong [OF r(1)] by simp
  from c(6) [OF rr] obtain e where e: "r1 = Inl e"
    and cnt: "length (filter is_Run (added wn w')) =
             (if truthy_str (cfg_useTmp wn) \<and> fst (env (i + n)) = MkdtempRaises then 0 else 1)"
    and shp: "\<forall>a\<in>set (filter is_Run (added wn w')). \<exists>cwd. a = Run (cfg_cmd wn) cwd"
    by blast
  note t = added_trans [OF r(3) c(5)]
  have "child_loop env (i + n) wn = Some (e, w')"
    using it e by (subst child_loop.simps) simp
  then have "child_loop env i w = Some (e, w')" using r(6) by simp
  moreover have "length (filter is_Run (added w w')) =
               n + (if truthy_str (cfg_useTmp w) \<and> fst (env (i + n)) = MkdtempRaises
                    then 0 else 1)"
    using r(4) cnt r(1) by (simp add: t(2))
  moreover have "\<forall>a\<in>set (filter is_Run (added w w')). \<exists>cwd. a = Run (cfg_cmd w) cwd"
    using r(5) shp r(2) by (auto simp: t(2))
  ultimately show ?thesis using it e t(1) by blast
qed

lemma connect_in_child:
  "\<not> truthy (cfg_child_pid w) \<Longrightarrow>
     connect env (Forked 0 f) w =
       (case child_loop env 0 w of None \<Rightarrow> None | Some (e, w') \<Rightarrow> Some (Inl e, w'))"
  by (simp add: connect_def)


text \<open>Claim C8, as amended. In the child (\<^verbatim>\<open>pty.fork\<close> returned \<open>0\<close>) the handler runs
  the configured command in a loop that has no exit of its own: every time
  \<^verbatim>\<open>subprocess.run\<close> returns, the command is run again. After \<open>n\<close> rounds that return the
  command has been run \<open>n\<close> times and the loop goes on from the state they leave; while
  every round returns, the loop never returns and neither does the handler. A launch that
  fails is not tried again: when \<^verbatim>\<open>subprocess.run\<close> raises (or \<^verbatim>\<open>mkdtemp\<close>, with
  \<^verbatim>\<open>useTmp\<close> set), the exception leaves the loop in that round, after the \<open>n\<close> runs
  before it and the failed launch, and the handler ends with that exception.\<close>

theorem child_loop_reruns_until_raise:
  "((\<forall>j. i \<le> j \<and> j < i + n \<longrightarrow> \<not> round_raises w (env j)) \<longrightarrow>
      (\<exists>wn. child_run (map env [i..<i + n]) w = (Inr (), wn)
         \<and> trace wn = trace w @ added w wn
         \<and> length (filter is_Run (added w wn)) = n
         \<and> (\<forall>a\<in>set (filter is_Run (added w wn)). \<exists>cwd. a = Run (cfg_cmd w) cwd)
         \<and> child_loop env i w = child_loop env (i + n) wn
         \<and> (round_raises w (env (i + n)) \<longrightarrow>
              (\<exists>e w'. child_iter (env (i + n)) wn = (Inl e, w')
                 \<and> child_loop env i w = Some (e, w')
                 \<and> trace w' = trace w @ added w w'
                 \<and> length (filter is_Run (added w w')) =
                     n + (if truthy_str (cfg_useTmp w) \<and> fst (env (i + n)) = MkdtempRaises
                          then 0 else 1)
                 \<and> (\<forall>a\<in>set (filter is_Run (added w w')). \<exists>cwd. a = Run (cfg_cmd w) cwd)
                 \<and> (i = 0 \<and> \<not> truthy (cfg_child_pid w) \<longrightarrow>
                      connect env (Forked 0 f) w = Some (Inl e, w'))))))
   \<and> ((\<forall>j\<ge>i. \<not> round_raises w (env j)) \<longrightarrow> child_loop env i w = None)
   \<and> ((\<forall>j. \<not> round_raises w (env j)) \<and> \<not> truthy (cfg_child_pid w) \<longrightarrow>
        connect env (Forked 0 f) w = None)"
proof (intro conjI impI)
  assume a: "\<forall>j. i \<le> j \<and> j < i + n \<longrightarrow> \<not> round_raises w (env j)"
  from child_loop_rounds [OF a] obtain wn where
    r: "child_run (map env [i..<i + n]) w = (Inr (), wn)"
       "trace wn = trace w @ added w wn"
       "length (filter is_Run (added w wn)) = n"
       "\<forall>a\<in>set (filter is_Run (added w wn)). \<exists>cwd. a = Run (cfg_cmd w) cwd"
       "child_loop env i w = child_loop env (i + n) wn"
    by blast
  have "round_raises w (env (i + n)) \<longrightarrow>
              (\<exists>e w'. child_iter (env (i + n)) wn = (Inl e, w')
                 \<and> child_loop env i w = Some (e, w')
                 \<and> trace w' = trace w @ added w w'
                 \<and> length (filter is_Run (added w w')) =
                     n + (if truthy_str (cfg_useTmp w) \<and> fst (env (i + n)) = MkdtempRaises
                          then 0 else 1)
                 \<and> (\<forall>a\<in>set (filter is_Run (added w w')). \<exists>cwd. a = Run (cfg_cmd w) cwd)
                 \<and> (i = 0 \<and> \<not> truthy (cfg_child_pid w) \<longrightarrow>
                      connect env (Forked 0 f) w = Some (Inl e, w')))"
  proof
    assume rr: "round_raises w (env (i + n))"
    from child_loop_leaves_at [OF a rr r(1)] obtain e w' where
      l: "child_iter (env (i + n)) wn = (Inl e, w')"
         "child_loop env i w = Some (e, w')"
         "trace w' = trace w @ added w w'"
         "length (filter is_Run (added w w')) =
            n + (if truthy_str (cfg_useTmp w) \<and> fst (env (i + n)) = MkdtempRaises
                 then 0 else 1)"
         "\<forall>a\<in>set (filter is_Run (added w w')). \<exists>cwd. a = Run (cfg_cmd w) cwd"
      by blast
    have "i = 0 \<and> \<not> truthy (cfg_child_pid w) \<longrightarrow>
            connect env (Forked 0 f) w = Some (Inl e, w')"
      using l(2) connect_in_child [of w env f] by auto
    with l show "\<exists>e w'. child_iter (env (i + n)) wn = (Inl e, w')
                 \<and> child_loop env i w = Some (e, w')
                 \<and> trace w' = trace w @ added w w'
                 \<and> length (filter is_Run (added w w')) =
                     n + (if truthy_str (cfg_useTmp w) \<and> fst (env (i + n)) = MkdtempRaises
                          then 0 else 1)
                 \<and> (\<forall>a\<in>set (filter is_Run (added w w')). \<exists>cwd. a = Run (cfg_cmd w) cwd)
                 \<and> (i = 0 \<and> \<not> truthy (cfg_child_pid w) \<longrightarrow>
                      connect env (Forked 0 f) w = Some (Inl e, w'))"
      by blast
  qed
  with r show "\<exists>wn. child_run (map env [i..<i + n]) w = (Inr (), wn)
         \<and> trace wn = trace w @ added w wn
         \<and> length (filter is_Run (added w wn)) = n
         \<and> (\<forall>a\<in>set (filter is_Run (added w wn)). \<exists>cwd. a = Run (cfg_cmd w) cwd)
         \<and> child_loop env i w = child_loop env (i + n) wn
         \<and> (round_raises w (env (i + n)) \<longrightarrow>
              (\<exists>e w'. child_iter (env (i + n)) wn = (Inl e, w')
                 \<and> child_loop env i w = Some (e, w')
                 \<and> trace w' = trace w @ added w w'
                 \<and> length (filter is_Run (added w w')) =
                     n + (if truthy_str (cfg_useTmp w) \<and> fst (env (i + n)) = MkdtempRaises
                          then 0 else 1)
                 \<and> (\<forall>a\<in>set (filter is_Run (added w w')). \<exists>cwd. a = Run (cfg_cmd w) cwd)
                 \<and> (i = 0 \<and> \<not> truthy (cfg_child_pid w) \<longrightarrow>
                      connect env (Forked 0 f) w = Some (Inl e, w'))))"
    by blast
next
  assume "\<forall>j\<ge>i. \<not> round_raises w (env j)"
  then show "child_loop env i w = None"
    using child_loop_returns_only_by_raise [of env i w]
    by (cases "child_loop env i w") auto
next
  assume a: "(\<forall>j. \<not> round_raises w (env j)) \<and> \<not> truthy (cfg_child_pid w)"
  then have "child_loop env 0 w = None"
    using child_loop_returns_only_by_raise [of env 0 w]
    by (cases "child_loop env 0 w") auto
  with a show "connect env (Forked 0 f) w = None"
    by (simp add: connect_in_child)
qed

theorem child_loop_reruns_until_raise_witness:
  "child_loop (\<lambda>j::nat. (TmpDir (if j = 0 then ''/tmp/a'' else ''/tmp/b''),
                  if j < 2 then Completed 0 else RunRaises OSError)) 0 (init [''bash''] (Some ''False'')) = Some (OSError, (init [''bash''] (Some ''False''))
             \<lparr>cfg_tmp := Some ''/tmp/b'',
              trace := [Mkdtemp ''/tmp/a'', Run [''bash''] (Some ''/tmp/a''),
                        Mkdtemp ''/tmp/b'', Run [''bash''] (Some ''/tmp/b''),
                        Mkdtemp ''/tmp/b'', Run [''bash''] (Some ''/tmp/b'')]\<rparr>)
   \<and> connect (\<lambda>j::nat. (TmpDir (if j = 0 then ''/tmp/a'' else ''/tmp/b''),
                  if j < 2 then Completed 0 else RunRaises OSError)) (Forked 0 5) (init [''bash''] (Some ''False'')) = Some (Inl OSError, (init [''bash''] (Some ''False''))
             \<lparr>cfg_tmp := Some ''/tmp/b'',
              trace := [Mkdtemp ''/tmp/a'', Run [''bash''] (Some ''/tmp/a''),
                        Mkdtemp ''/tmp/b'', Run [''bash''] (Some ''/tmp/b''),
                        Mkdtemp ''/tmp/b'', Run [''bash''] (Some ''/tmp/b'')]\<rparr>)
   \<and> child_loop (\<lambda>j::nat. (TmpDir (if j = 0 then ''/tmp/a'' else ''/tmp/b''), Completed 0)) 0 (init [''bash''] (Some ''False'')) = None
   \<and> connect (\<lambda>j::nat. (TmpDir (if j = 0 then ''/tmp/a'' else ''/tmp/b''), Completed 0)) (Forked 0 5) (init [''bash''] (Some ''False'')) = None"
proof -
  let ?w = "init [''bash''] (Some ''False'')"
  let ?env = "(\<lambda>j::nat. (TmpDir (if j = 0 then ''/tmp/a'' else ''/tmp/b''),
                  if j < 2 then Completed 0 else RunRaises OSError))"
  have h: "\<forall>j. 0 \<le> j \<and> j < 0 + 2 \<longrightarrow> \<not> round_raises ?w (?env j)"
    by (simp add: round_raises_def init_def)
  have rr: "round_raises ?w (?env (0 + 2))"
    by (simp add: round_raises_def)
  have pid: "\<not> truthy (cfg_child_pid ?w)"
    by (simp add: init_def)
  from child_loop_reruns_until_raise [of 0 2 ?w ?env 5] h rr pid obtain wn e w' where
    f: "child_run (map ?env [0..<0 + 2]) ?w = (Inr (), wn)"
       "child_iter (?env (0 + 2)) wn = (Inl e, w')"
       "child_loop ?env 0 ?w = Some (e, w')"
       "connect ?env (Forked 0 5) ?w = Some (Inl e, w')"
    by blast
  have "child_run (map ?env [0..<0 + 2]) ?w = (Inr (), (init [''bash''] (Some ''False''))
             \<lparr>cfg_tmp := Some ''/tmp/b'',
              trace := [Mkdtemp ''/tmp/a'', Run [''bash''] (Some ''/tmp/a''),
                        Mkdtemp ''/tmp/b'', Run [''bash''] (Some ''/tmp/b'')]\<rparr>)"
    by (simp add: init_def child_iter_def subprocess_run_def log_def upt_conv_Cons)
  with f(1) have wn: "wn = (init [''bash''] (Some ''False''))
             \<lparr>cfg_tmp := Some ''/tmp/b'',
              trace := [Mkdtemp ''/tmp/a'', Run [''bash''] (Some ''/tmp/a''),
                        Mkdtemp ''/tmp/b'', Run [''bash''] (Some ''/tmp/b'')]\<rparr>" by simp
  have "child_iter (?env (0 + 2)) wn = (Inl OSError, (init [''bash''] (Some ''False''))
             \<lparr>cfg_tmp := Some ''/tmp/b'',
              trace := [Mkdtemp ''/tmp/a'', Run [''bash''] (Some ''/tmp/a''),
                        Mkdtemp ''/tmp/b'', Run [''bash''] (Some ''/tmp/b''),
                        Mkdtemp ''/tmp/b'', Run [''bash''] (Some ''/tmp/b'')]\<rparr>)"
    unfolding wn by (simp add: init_def child_iter_def subprocess_run_def log_def)
  with f(2) have "e = OSError" "w' = (init [''bash''] (Some ''False''))
             \<lparr>cfg_tmp := Some ''/tmp/b'',
              trace := [Mkdtemp ''/tmp/a'', Run [''bash''] (Some ''/tmp/a''),
                        Mkdtemp ''/tmp/b'', Run [''bash''] (Some ''/tmp/b''),
                        Mkdtemp ''/tmp/b'', Run [''bash''] (Some ''/tmp/b'')]\<rparr>" by simp_all
  with f(3,4) have 1: "child_loop ?env 0 ?w = Some (OSError, (init [''bash''] (Some ''False''))
             \<lparr>cfg_tmp := Some ''/tmp/b'',
              trace := [Mkdtemp ''/tmp/a'', Run [''bash''] (Some ''/tmp/a''),
                        Mkdtemp ''/tmp/b'', Run [''bash''] (Some ''/tmp/b''),
                        Mkdtemp ''/tmp/b'', Run [''bash''] (Some ''/tmp/b'')]\<rparr>)"
    and 2: "connect ?env (Forked 0 5) ?w = Some (Inl OSError, (init [''bash''] (Some ''False''))
             \<lparr>cfg_tmp := Some ''/tmp/b'',
              trace := [Mkdtemp ''/tmp/a'', Run [''bash''] (Some ''/tmp/a''),
                        Mkdtemp ''/tmp/b'', Run [''bash''] (Some ''/tmp/b''),
                        Mkdtemp ''/tmp/b'', Run [''bash''] (Some ''/tmp/b'')]\<rparr>)"
    by simp_all
  have 3: "child_loop (\<lambda>j::nat. (TmpDir (if j = 0 then ''/tmp/a'' else ''/tmp/b''), Completed 0)) 0 ?w = None
     \<and> connect (\<lambda>j::nat. (TmpDir (if j = 0 then ''/tmp/a'' else ''/tmp/b''), Completed 0)) (Forked 0 5) ?w = None"
    using child_loop_reruns_until_raise [of 0 0 ?w "(\<lambda>j::nat. (TmpDir (if j = 0 then ''/tmp/a'' else ''/tmp/b''), Completed 0))" 5]
    by (simp add: round_raises_def init_def)
  from 1 2 3 show ?thesis by blast
qed

text \<open>The claim as stated fails: when the command cannot be started, the first
  \<^verbatim>\<open>subprocess.run\<close> raises, the loop is left at once and the handler returns with the
  exception; nothing is tried again.\<close>

theorem child_loop_exec_failure_counterexample:
  "connect (\<lambda>j. (TmpDir ''/tmp/a'', RunRaises OSError)) (Forked 0 5)
     (init [''nosuchcmd''] (Some ''False''))
   = Some (Inl OSError,
           (init [''nosuchcmd''] (Some ''False''))
             \<lparr>cfg_tmp := Some ''/tmp/a'',
              trace := [Mkdtemp ''/tmp/a'', Run [''nosuchcmd''] (Some ''/tmp/a'')]\<rparr>)"
  apply (simp add: connect_def init_def)
  apply (subst child_loop.simps)
  apply (simp add: child_iter_def subprocess_run_def log_def)
  done

section \<open>What is typed comes back as typed\<close>

lemma div_4096: "(c::nat) div 4096 = c div 64 div 64"
  by (simp add: div_mult2_eq)

lemma div_262144: "(c::nat) div 262144 = c div 64 div 64 div 64"
  by (simp add: div_mult2_eq)

lemma utf8_step_encode_cp:
  assumes "utf8_encode_cp c = Inr (b # bs)"
  shows "utf8_step b (bs @ rest) = (Some c, rest)"
proof -
  define z where "z = c mod 64"
  define y where "y = c div 64 mod 64"
  define x where "x = c div 64 div 64 mod 64"
  define u where "u = c div 64 div 64 div 64"
  have lt: "z < 64" "y < 64" "x < 64" by (simp_all add: z_def y_def x_def)
  have c1: "c = c div 64 * 64 + z" by (simp add: z_def)
  have c2: "c div 64 = c div 64 div 64 * 64 + y" by (simp add: y_def)
  have c3: "c div 64 div 64 = u * 64 + x" by (simp add: x_def u_def)
  have d2: "c = (c div 64 div 64) * 4096 + y * 64 + z" using c1 c2 by linarith
  have d3: "c = u * 262144 + x * 4096 + y * 64 + z" using d2 c3 by linarith
  consider "c < 0x80" | "0x80 \<le> c" "c < 0x800" | "0x800 \<le> c" "c < 0x10000"
    | "0x10000 \<le> c" "c < 0x110000" | "0x110000 \<le> c"
    by linarith
  then show ?thesis
  proof cases
    case 1
    with assms show ?thesis by (simp add: utf8_encode_cp_def utf8_step_def)
  next
    case 2
    with assms have b: "b = 0xC0 + c div 64" "bs = [0x80 + z]"
      by (simp_all add: utf8_encode_cp_def z_def)
    have "2 \<le> c div 64" "c div 64 < 32" using 2 c1 lt by linarith+
    then show ?thesis using b lt c1
      by (simp add: utf8_step_def is_cont_def)
  next
    case 3
    with assms have ns: "\<not> (0xD800 \<le> c \<and> c \<le> 0xDFFF)"
      and b: "b = 0xE0 + c div 64 div 64" "bs = [0x80 + y, 0x80 + z]"
      by (simp_all add: utf8_encode_cp_def div_4096 y_def z_def split: if_splits)
    have r: "c div 64 div 64 < 16" using 3 d2 by linarith
    have o: "y < 32 \<Longrightarrow> c div 64 div 64 \<noteq> 0" using 3 d2 lt by linarith
    have s: "\<not> y < 32 \<Longrightarrow> c div 64 div 64 \<noteq> 13" using ns 3 d2 lt by linarith
    show ?thesis using b r o s lt d2
      by (simp add: utf8_step_def is_cont_def)
  next
    case 4
    with assms have
      b: "b = 0xF0 + u" "bs = [0x80 + x, 0x80 + y, 0x80 + z]"
      by (simp_all add: utf8_encode_cp_def div_4096 div_262144 x_def y_def z_def u_def)
    have r: "u < 5" using 4 d3 by linarith
    have o: "x < 16 \<Longrightarrow> u \<noteq> 0" using 4 d3 lt by linarith
    have s: "\<not> x < 16 \<Longrightarrow> u \<noteq> 4" using 4 d3 lt by linarith
    show ?thesis using b r o s lt d3
      by (simp add: utf8_step_def is_cont_def)
  next
    case 5
    with assms show ?thesis by (simp add: utf8_encode_cp_def)
  qed
qed


lemma utf8_encode_cp_bytes:
  assumes "utf8_encode_cp c = Inr bs"
  shows "bs \<noteq> []" and "\<forall>b\<in>set bs. b < 256"
proof -
  show "bs \<noteq> []"
    using assms by (auto simp: utf8_encode_cp_def split: if_splits)
  have "c div 64 < 32" if "c < 0x800" using that by simp
  moreover have "c div 4096 < 16" if "c < 0x10000" using that by simp
  moreover have "c div 262144 < 5" if "c < 0x110000" using that by simp
  moreover have "c mod 64 < 64" "c div 64 mod 64 < 64" "c div 4096 mod 64 < 64" by simp_all
  ultimately show "\<forall>b\<in>set bs. b < 256"
    using assms by (auto simp: utf8_encode_cp_def split: if_splits)
qed

lemma utf8_encode_bytes: "utf8_encode s = Inr bs \<Longrightarrow> \<forall>b\<in>set bs. b < 256"
proof (induction s arbitrary: bs)
  case Nil
  then show ?case by simp
next
  case (Cons c s)
  then obtain cs ss where e: "utf8_encode_cp c = Inr cs" "utf8_encode s = Inr ss" "bs = cs @ ss"
    by (auto split: sum.splits)
  from utf8_encode_cp_bytes(2) [OF e(1)] Cons.IH [OF e(2)] e(3) show ?case by auto
qed

lemma utf8_decode_encode_cp:
  assumes "utf8_encode_cp c = Inr cs"
  shows "utf8_decode m (cs @ rest) =
           (case utf8_decode m rest of Inl e \<Rightarrow> Inl e | Inr t \<Rightarrow> Inr (c # t))"
proof -
  from utf8_encode_cp_bytes(1) [OF assms] obtain b bs where cs: "cs = b # bs"
    by (cases cs) auto
  with utf8_step_encode_cp [of c b bs rest] assms show ?thesis by simp
qed

lemma utf8_decode_encode:
  "utf8_encode s = Inr bs \<Longrightarrow>
     utf8_decode m (bs @ rest) =
       (case utf8_decode m rest of Inl e \<Rightarrow> Inl e | Inr t \<Rightarrow> Inr (s @ t))"
proof (induction s arbitrary: bs)
  case Nil
  then show ?case by (simp split: sum.splits)
next
  case (Cons c s)
  then obtain cs ss where e: "utf8_encode_cp c = Inr cs" "utf8_encode s = Inr ss" "bs = cs @ ss"
    by (auto split: sum.splits)
  from Cons.IH [OF e(2)] utf8_decode_encode_cp [OF e(1), of m "ss @ rest"] e(3)
  show ?case by (simp split: sum.splits)
qed

lemma bytes_decode_str_encode:
  assumes "str_encode s = Inr bs"
  shows "bytes_decode m bs = Inr s"
proof -
  from assms obtain ns where ns: "utf8_encode s = Inr ns" "bs = map of_nat ns"
    by (auto simp: str_encode_def split: sum.splits)
  have "map unat bs = ns"
    using utf8_encode_bytes [OF ns(1)] ns(2)
    by (auto simp: unat_of_nat intro!: map_idI)
  with utf8_decode_encode [OF ns(1), of m "[]"] show ?thesis
    by (simp add: bytes_decode_def)
qed


text \<open>Text that encodes, delivered to \<^verbatim>\<open>pty_input\<close> on an attached session, is written
  as its UTF-8 encoding, and decoding those bytes, strictly or with \<^verbatim>\<open>errors='ignore'\<close>,
  gives the text back. So when the terminal echoes the bytes and one read of the pump finds
  them all, the output event carries the text as it was typed.\<close>

theorem typed_text_comes_back:
  "(str_encode s = Inr bs \<longrightarrow> bytes_decode Strict bs = Inr s \<and> bytes_decode Ignore bs = Inr s)
   \<and> (cfg_fd w = Some f \<and> f \<noteq> 0 \<and> data ''input'' = Some (JStr s) \<and> str_encode s = Inr bs
        \<and> length bs \<le> max_read_bytes \<longrightarrow>
        pty_input data w = (Inr (), log (Write f bs) w)
        \<and> pump_iter (Ready (Pending bs)) (log (Write f bs) w) =
            (Inr (), w\<lparr>trace := trace w @
               [Write f bs, Sleep (1 / 100), Select f 0 True,
                Read f max_read_bytes (Inr bs), Emit s]\<rparr>))"
proof (intro conjI impI)
  assume "str_encode s = Inr bs"
  then show "bytes_decode Strict bs = Inr s" "bytes_decode Ignore bs = Inr s"
    by (rule bytes_decode_str_encode)+
next
  assume a: "cfg_fd w = Some f \<and> f \<noteq> 0 \<and> data ''input'' = Some (JStr s) \<and> str_encode s = Inr bs
        \<and> length bs \<le> max_read_bytes"
  then show "pty_input data w = (Inr (), log (Write f bs) w)"
    using pty_input_attached by blast
  have "bytes_decode Ignore (take max_read_bytes bs) = Inr s"
    using a bytes_decode_str_encode by simp
  moreover have "cfg_fd (log (Write f bs) w) = Some f" using a by (simp add: log_def)
  ultimately show "pump_iter (Ready (Pending bs)) (log (Write f bs) w) =
            (Inr (), w\<lparr>trace := trace w @
               [Write f bs, Sleep (1 / 100), Select f 0 True,
                Read f max_read_bytes (Inr bs), Emit s]\<rparr>)"
    using pump_iter_pending [of "log (Write f bs) w" f bs s] a by (simp add: log_def)
qed

theorem typed_text_comes_back_witness:
  "bytes_decode Ignore [0xE2, 0x82, 0xAC, 0x35] = Inr [0x20AC, 0x35]
   \<and> pump_iter (Ready (Pending [0xE2, 0x82, 0xAC, 0x35]))
        (log (Write 5 [0xE2, 0x82, 0xAC, 0x35])
           ((init [''bash''] None)\<lparr>cfg_fd := Some 5, cfg_child_pid := Some 1234, pumps := 1\<rparr>))
      = (Inr (), (init [''bash''] None)
           \<lparr>cfg_fd := Some 5, cfg_child_pid := Some 1234, pumps := 1,
            trace := [Write 5 [0xE2, 0x82, 0xAC, 0x35], Sleep (1 / 100), Select 5 0 True,
                      Read 5 20480 (Inr [0xE2, 0x82, 0xAC, 0x35]), Emit [0x20AC, 0x35]]\<rparr>)"
  using typed_text_comes_back
          [of "[0x20AC, 0x35]" "[0xE2, 0x82, 0xAC, 0x35]"
              "(init [''bash''] None)\<lparr>cfg_fd := Some 5, cfg_child_pid := Some 1234, pumps := 1\<rparr>"
              5 "[''input'' \<mapsto> JStr [0x20AC, 0x35]]"]
  by (simp add: str_encode_def utf8_encode_cp_def init_def max_read_bytes_def)

section \<open>A pty handle that is descriptor zero\<close>

lemma handle_fd_zero:
  assumes "truthy (cfg_child_pid w)" and "cfg_fd w = Some 0"
  shows "\<exists>res w'. handle env ev w = Some (res, w') \<and> cfg_fd w' = Some 0
           \<and> cfg_child_pid w' = cfg_child_pid w
           \<and> trace w' = trace w @ added w w'
           \<and> (\<forall>a\<in>set (added w w'). is_Sleep a)"
proof (cases ev)
  case (Connect fo)
  then show ?thesis using assms by (simp add: handle_def connect_again)
next
  case (PtyInput data)
  then show ?thesis using assms by (simp add: handle_def pty_input_def)
next
  case (Resize data)
  then show ?thesis using assms by (simp add: handle_def resize_def)
next
  case (PumpIter p)
  then show ?thesis using assms
    by (simp add: handle_def pump_iter_def log_def)
qed

lemma run_fd_zero:
  assumes "truthy (cfg_child_pid w)" and "cfg_fd w = Some 0"
  shows "\<exists>w'. run env evs w = Some w' \<and> cfg_fd w' = Some 0
           \<and> trace w' = trace w @ added w w'
           \<and> (\<forall>a\<in>set (added w w'). is_Sleep a)"
  using assms
proof (induction evs arbitrary: w)
  case Nil
  then show ?case by simp
next
  case (Cons ev evs)
  from handle_fd_zero [OF Cons.prems, of env ev] obtain res w1 where
    h: "handle env ev w = Some (res, w1)" "cfg_fd w1 = Some 0"
       "cfg_child_pid w1 = cfg_child_pid w" "trace w1 = trace w @ added w w1"
       "\<forall>a\<in>set (added w w1). is_Sleep a"
    by blast
  from Cons.IH [of w1] h(2,3) Cons.prems(1) obtain w2 where
    r: "run env evs w1 = Some w2" "cfg_fd w2 = Some 0" "trace w2 = trace w1 @ added w1 w2"
       "\<forall>a\<in>set (added w1 w2). is_Sleep a"
    by auto
  note t = added_trans [OF h(4) r(3)]
  have "\<forall>a\<in>set (added w w2). is_Sleep a"
    using h(5) r(4) by (auto simp: t(2))
  then show ?case using h(1) r(1,2) t(1) by simp
qed

text \<open>The attached-check is the truth value of the stored handle, and descriptor \<open>0\<close> is
  falsy. When \<^verbatim>\<open>pty.fork\<close> returns \<open>0\<close> as the master end of the pty, the connect stores
  the session, sets the window size and starts the pump, and from then on every input and
  every resize is dropped and the pump only sleeps: whatever events follow, nothing is
  written, polled, read or emitted, and no later connect forks again.\<close>

theorem fd_zero_never_attached:
  "p \<noteq> 0 \<longrightarrow>
     (\<exists>w'. run env (Connect (Forked p 0) # evs) (init c u) = Some w'
        \<and> cfg_fd w' = Some 0
        \<and> take 3 (trace w') = [Fork p 0, Ioctl 0 (50, 50, 0, 0), StartTask]
        \<and> (\<forall>a\<in>set (drop 3 (trace w')). is_Sleep a))"
proof
  assume p: "p \<noteq> 0"
  let ?w1 = "(init c u)\<lparr>cfg_fd := Some 0, cfg_child_pid := Some p, pumps := 1,
                        trace := [Fork p 0, Ioctl 0 (50, 50, 0, 0), StartTask]\<rparr>"
  have first: "connect env (Forked p 0) (init c u) = Some (Inl TypeError, ?w1)"
    using connect_first [of "init c u" p env 0] p by (simp add: init_def)
  have pid: "truthy (cfg_child_pid ?w1)" and fd: "cfg_fd ?w1 = Some 0" using p by simp_all
  from run_fd_zero [OF pid fd, of env evs] obtain w' where
    r: "run env evs ?w1 = Some w'" "cfg_fd w' = Some 0" "trace w' = trace ?w1 @ added ?w1 w'"
       "\<forall>a\<in>set (added ?w1 w'). is_Sleep a"
    by blast
  have "run env (Connect (Forked p 0) # evs) (init c u) = Some w'"
    using first r(1) by (simp add: handle_def)
  moreover have "take 3 (trace w') = [Fork p 0, Ioctl 0 (50, 50, 0, 0), StartTask]"
    by (simp add: r(3))
  moreover have "\<forall>a\<in>set (drop 3 (trace w')). is_Sleep a"
    using r(4) by (simp add: r(3))
  ultimately show "\<exists>w'. run env (Connect (Forked p 0) # evs) (init c u) = Some w'
        \<and> cfg_fd w' = Some 0
        \<and> take 3 (trace w') = [Fork p 0, Ioctl 0 (50, 50, 0, 0), StartTask]
        \<and> (\<forall>a\<in>set (drop 3 (trace w')). is_Sleep a)"
    using r(2) by blast
qed

theorem fd_zero_never_attached_witness:
  "run (\<lambda>i. (MkdtempRaises, RunRaises OSError))
     [Connect (Forked 1234 0), PtyInput [''input'' \<mapsto> JStr [108, 115]],
      Resize [''rows'' \<mapsto> JInt 24, ''cols'' \<mapsto> JInt 80], PumpIter (Ready (Pending [0x68]))]
     (init [''bash''] None)
   = Some \<lparr>cfg_fd = Some 0, cfg_child_pid = Some 1234, cfg_cmd = [''bash''], cfg_useTmp = None,
           cfg_tmp = None, pumps = 1,
           trace = [Fork 1234 0, Ioctl 0 (50, 50, 0, 0), StartTask, Sleep (1 / 100)]\<rparr>"
  using fd_zero_never_attached
          [of 1234 "\<lambda>i. (MkdtempRaises, RunRaises OSError)"
              "[PtyInput [''input'' \<mapsto> JStr [108, 115]],
                Resize [''rows'' \<mapsto> JInt 24, ''cols'' \<mapsto> JInt 80],
                PumpIter (Ready (Pending [0x68]))]" "[''bash'']" None]
  by (simp add: init_def handle_def connect_def set_winsize_def pack_HHHH_def pack_H_def
        pty_input_def resize_def pump_iter_def log_def)

end
